theory Spec2Isabelle
  imports Complex_Main "HOL-Library.AList"
begin

section \<open>Python values and dictionaries\<close>

text \<open>
  The plugin \<^verbatim>\<open>memcachedstats.py\<close> works on the dictionary of counters that the
  Memcached server reports. A value of that dictionary is a Python number, or \<^verbatim>\<open>None\<close>
  (the plugin itself stores \<^verbatim>\<open>None\<close> under \<^verbatim>\<open>set_hits\<close> when \<^verbatim>\<open>total_items\<close>
  is missing). Integers are unbounded. A float is a finite IEEE 754 double, given by the
  rational it stands for. In the differences and sums of counters a float is taken with
  that exact value; the counters of Memcached that the plugin reads are integers. The
  arithmetic of the hit percentages, where floats are made, is rounded as CPython does it
  (see below).
\<close>

datatype pyval = PyNone | PyInt int | PyFloat rat

datatype error =
    Exception string
  | TypeError
  | KeyError string
  | AttributeError string string
  | OverflowError
  | ZeroDivisionError
  | NonFinite

type_synonym stats = "(string \<times> pyval) list"

text \<open>\<^verbatim>\<open>k in d\<close>, \<^verbatim>\<open>d.get(k)\<close>, \<^verbatim>\<open>d[k]\<close> and \<^verbatim>\<open>d[k] = v\<close>.\<close>

definition dict_has :: "string \<Rightarrow> stats \<Rightarrow> bool" where
  "dict_has k d = (case map_of d k of None \<Rightarrow> False | Some v \<Rightarrow> True)"

definition dict_get :: "stats \<Rightarrow> string \<Rightarrow> pyval" where
  "dict_get d k = (case map_of d k of None \<Rightarrow> PyNone | Some v \<Rightarrow> v)"

definition dict_item :: "stats \<Rightarrow> string \<Rightarrow> error + pyval" where
  "dict_item d k = (case map_of d k of None \<Rightarrow> Inl (KeyError k) | Some v \<Rightarrow> Inr v)"

definition dict_set :: "stats \<Rightarrow> string \<Rightarrow> pyval \<Rightarrow> stats" where
  "dict_set d k v = AList.update k v d"

text \<open>Truth value of \<^verbatim>\<open>if prev_stats:\<close>: neither \<^verbatim>\<open>None\<close> nor the empty dictionary.\<close>

definition truthy :: "stats option \<Rightarrow> bool" where
  "truthy d = (case d of None \<Rightarrow> False | Some [] \<Rightarrow> False | Some (x # xs) \<Rightarrow> True)"

fun err_bind :: "error + 'a \<Rightarrow> ('a \<Rightarrow> error + 'b) \<Rightarrow> error + 'b" where
  "err_bind (Inl e) f = Inl e"
| "err_bind (Inr x) f = f x"

subsection \<open>Arithmetic\<close>

fun py_is_num :: "pyval \<Rightarrow> bool" where
  "py_is_num PyNone = False"
| "py_is_num (PyInt i) = True"
| "py_is_num (PyFloat r) = True"

fun num_val :: "pyval \<Rightarrow> rat" where
  "num_val PyNone = 0"
| "num_val (PyInt i) = of_int i"
| "num_val (PyFloat r) = r"

text \<open>\<^verbatim>\<open>a - b\<close> and \<^verbatim>\<open>a + b\<close>: a \<^verbatim>\<open>TypeError\<close> when an operand is \<^verbatim>\<open>None\<close>.\<close>

fun py_sub :: "pyval \<Rightarrow> pyval \<Rightarrow> error + pyval" where
  "py_sub (PyInt a) (PyInt b) = Inr (PyInt (a - b))"
| "py_sub (PyInt a) (PyFloat b) = Inr (PyFloat (of_int a - b))"
| "py_sub (PyFloat a) (PyInt b) = Inr (PyFloat (a - of_int b))"
| "py_sub (PyFloat a) (PyFloat b) = Inr (PyFloat (a - b))"
| "py_sub PyNone b = Inl TypeError"
| "py_sub a PyNone = Inl TypeError"

fun py_add :: "pyval \<Rightarrow> pyval \<Rightarrow> error + pyval" where
  "py_add (PyInt a) (PyInt b) = Inr (PyInt (a + b))"
| "py_add (PyInt a) (PyFloat b) = Inr (PyFloat (of_int a + b))"
| "py_add (PyFloat a) (PyInt b) = Inr (PyFloat (a + of_int b))"
| "py_add (PyFloat a) (PyFloat b) = Inr (PyFloat (a + b))"
| "py_add PyNone b = Inl TypeError"
| "py_add a PyNone = Inl TypeError"

text \<open>\<^verbatim>\<open>total > 0\<close> on a number.\<close>

definition py_pos :: "pyval \<Rightarrow> bool" where
  "py_pos v = (0 < num_val v)"

subsection \<open>Floats\<close>

text \<open>
  The double nearest to a rational, a tie going to the even significand: 53 bits of
  significand, exponents down to the subnormal range. The number of bits of a positive
  integer gives the binary exponent.
\<close>

function bit_length :: "int \<Rightarrow> int" where
  "bit_length n = (if n \<le> 0 then 0 else 1 + bit_length (n div 2))"
  by pat_completeness auto
termination
  by (relation "measure nat") auto

declare bit_length.simps [simp del]

definition floor_log2 :: "rat \<Rightarrow> int" where
  "floor_log2 x = (if 1 \<le> x then bit_length \<lfloor>x\<rfloor> - 1
                   else - bit_length (\<lceil>1 / x\<rceil> - 1))"

definition round_half_even :: "rat \<Rightarrow> int" where
  "round_half_even x =
     (let f = \<lfloor>x\<rfloor>; d = x - of_int f
      in if d < 1 / 2 then f else if 1 / 2 < d then f + 1 else if even f then f else f + 1)"

definition ulp :: "rat \<Rightarrow> rat" where
  "ulp x = 2 powi (max (floor_log2 \<bar>x\<bar>) (- 1022) - 52)"

definition to_double :: "rat \<Rightarrow> rat" where
  "to_double x = (if x = 0 then 0 else of_int (round_half_even (x / ulp x)) * ulp x)"

text \<open>
  The float of an integer, the product and the quotient of two floats: the exact result,
  rounded to a double.
\<close>

definition float_of_int :: "int \<Rightarrow> rat" where
  "float_of_int i = to_double (of_int i)"

definition float_mul :: "rat \<Rightarrow> rat \<Rightarrow> rat" where
  "float_mul x y = to_double (x * y)"

definition float_div :: "rat \<Rightarrow> rat \<Rightarrow> rat" where
  "float_div x y = to_double (x / y)"

text \<open>
  \<^verbatim>\<open>round(x, 2)\<close> on a float, as CPython 3 computes it: the exact value of \<open>x\<close> is rounded
  to two decimals, a tie going to the even digit, and the result is the double nearest to
  that decimal. (Python 2.7 differs on an exact tie, which it rounds away from zero.)
\<close>

definition float_round2 :: "rat \<Rightarrow> rat" where
  "float_round2 x = to_double (of_int (round_half_even (x * 100)) / 100)"

text \<open>
  An operand of float arithmetic: an integer too large for a double raises
  \<^verbatim>\<open>OverflowError\<close>, \<^verbatim>\<open>None\<close> a \<^verbatim>\<open>TypeError\<close>.
\<close>

definition py_float :: "pyval \<Rightarrow> error + rat" where
  "py_float v = (case v of
       PyNone \<Rightarrow> Inl TypeError
     | PyInt i \<Rightarrow> if 2 ^ 1024 \<le> \<bar>float_of_int i\<bar> then Inl OverflowError
                  else Inr (float_of_int i)
     | PyFloat r \<Rightarrow> Inr r)"

text \<open>
  A product or quotient beyond the largest double is \<^verbatim>\<open>inf\<close> in Python, and the code goes
  on with it. This model has finite floats only and stops there, with \<open>NonFinite\<close>; it
  takes a difference of counters beyond \<open>10\<^sup>3\<^sup>0\<^sup>6\<close> to get there.
\<close>

definition finite_float :: "rat \<Rightarrow> error + rat" where
  "finite_float x = (if 2 ^ 1024 \<le> \<bar>x\<bar> then Inl NonFinite else Inr x)"

text \<open>\<^verbatim>\<open>100.0 * hits / total\<close>: the product first, then the quotient.\<close>

definition py_pct :: "pyval \<Rightarrow> pyval \<Rightarrow> error + pyval" where
  "py_pct hits tot =
     err_bind (py_float hits) (\<lambda>h.
     err_bind (finite_float (float_mul 100 h)) (\<lambda>x.
     err_bind (py_float tot) (\<lambda>t.
       if t = 0 then Inl ZeroDivisionError
       else err_bind (finite_float (float_div x t)) (\<lambda>q. Inr (PyFloat q)))))"

text \<open>
  \<^verbatim>\<open>round(val, 2)\<close>, as CPython 3 computes it: an integer is returned as it is, a float
  rounded to two decimals. (Python 2.7 returns the float \<^verbatim>\<open>0.0\<close> for the integer 0.)
\<close>

definition py_round2 :: "pyval \<Rightarrow> error + pyval" where
  "py_round2 v = (case v of
       PyNone \<Rightarrow> Inl TypeError
     | PyInt i \<Rightarrow> Inr (PyInt i)
     | PyFloat r \<Rightarrow> Inr (PyFloat (float_round2 r)))"

text \<open>Lines 435 to 440: the value of a percentage field, from the hits and their total.\<close>

definition hitpct_val :: "pyval \<Rightarrow> pyval \<Rightarrow> error + pyval" where
  "hitpct_val hits tot =
     err_bind (if py_pos tot then py_pct hits tot else Inr (PyInt 0)) py_round2"

subsection \<open>The sum of optional counters\<close>

text \<open>
  Modelled from the spec: \<^verbatim>\<open>safe_sum\<close> of \<^verbatim>\<open>pysysinfo.util\<close>, which the plugin imports;
  its source is not part of the files at hand. The specification describes it: the sum
  of a fixed list of counters, an absent counter contributing 0, unless every counter of
  the list is absent, in which case the sum itself is absent.
\<close>

fun plus_present :: "pyval \<Rightarrow> pyval \<Rightarrow> pyval" where
  "plus_present acc PyNone = acc"
| "plus_present PyNone v = v"
| "plus_present (PyInt a) (PyInt b) = PyInt (a + b)"
| "plus_present (PyInt a) (PyFloat b) = PyFloat (of_int a + b)"
| "plus_present (PyFloat a) (PyInt b) = PyFloat (a + of_int b)"
| "plus_present (PyFloat a) (PyFloat b) = PyFloat (a + b)"

definition safe_sum :: "pyval list \<Rightarrow> pyval" where
  "safe_sum xs = (if filter py_is_num xs = [] then PyNone else foldl plus_present (PyInt 0) xs)"

section \<open>The plugin object\<close>

text \<open>
  A graph of the plugin is a name with its fields in the order of the \<^verbatim>\<open>addField\<close>
  calls. The titles, labels and info strings play no part in what follows; the draw
  style and the type of a field are kept.
\<close>

record munin_field =
  field_name :: string
  field_draw :: string
  field_type :: string

definition addField :: "string \<Rightarrow> string \<Rightarrow> string \<Rightarrow> munin_field" where
  "addField n d t = \<lparr>field_name = n, field_draw = d, field_type = t\<rparr>"

type_synonym schema = "(string \<times> munin_field list) list"

text \<open>
  What the plugin does to the outside world, in the order it does it: reading the saved
  state, asking the server for its counters, saving the state, setting a field value.
\<close>

datatype event = RestoreState | GetStats | SaveState | SetVal string string

record plugin =
  graphs :: schema
  self_stats :: "stats option"
  self_prev_stats :: "stats option"
  vals :: "((string \<times> string) \<times> pyval) list"
  state_store :: "stats option"
  event_log :: "event list"

type_synonym step = "plugin \<Rightarrow> error + plugin"

text \<open>
  Modelled from the spec: \<^verbatim>\<open>hasGraph\<close>, \<^verbatim>\<open>graphHasField\<close> and \<^verbatim>\<open>setGraphVal\<close> of the
  base class \<^verbatim>\<open>MuninPlugin\<close>, whose source is not part of the files at hand. The
  specification has the values as a mapping from (graph, field) to a value, over the
  fields of the schema; setting a field the schema does not have is an error here.
\<close>

definition schema_has_graph :: "schema \<Rightarrow> string \<Rightarrow> bool" where
  "schema_has_graph G g = (case map_of G g of None \<Rightarrow> False | Some fs \<Rightarrow> True)"

definition schema_has_field :: "schema \<Rightarrow> string \<Rightarrow> string \<Rightarrow> bool" where
  "schema_has_field G g f =
     (case map_of G g of None \<Rightarrow> False | Some fs \<Rightarrow> f \<in> set (map field_name fs))"

definition hasGraph :: "plugin \<Rightarrow> string \<Rightarrow> bool" where
  "hasGraph p g = schema_has_graph (graphs p) g"

definition graphHasField :: "plugin \<Rightarrow> string \<Rightarrow> string \<Rightarrow> bool" where
  "graphHasField p g f = schema_has_field (graphs p) g f"

definition setGraphVal :: "string \<Rightarrow> string \<Rightarrow> pyval \<Rightarrow> step" where
  "setGraphVal g f v p =
     (if graphHasField p g f
      then Inr (p\<lparr>vals := AList.update (g, f) v (vals p),
                  event_log := event_log p @ [SetVal g f]\<rparr>)
      else Inl (AttributeError g f))"

text \<open>The value of a field after a cycle; \<^verbatim>\<open>None\<close> when it was never set.\<close>

definition graphVal :: "plugin \<Rightarrow> string \<Rightarrow> string \<Rightarrow> pyval" where
  "graphVal p g f = (case map_of (vals p) (g, f) of None \<Rightarrow> PyNone | Some v \<Rightarrow> v)"

text \<open>A block of statements stops at the first exception.\<close>

fun run_steps :: "step list \<Rightarrow> step" where
  "run_steps [] p = Inr p"
| "run_steps (s # ss) p = (case s p of Inl e \<Rightarrow> Inl e | Inr p' \<Rightarrow> run_steps ss p')"

definition ifGraph :: "string \<Rightarrow> step list \<Rightarrow> step" where
  "ifGraph g ss p = (if hasGraph p g then run_steps ss p else Inr p)"

definition ifField :: "string \<Rightarrow> string \<Rightarrow> step list \<Rightarrow> step" where
  "ifField g f ss p = (if graphHasField p g f then run_steps ss p else Inr p)"

subsection \<open>The constructor: which graphs and fields exist\<close>

text \<open>The fields added in a loop \<^verbatim>\<open>for (fname, fstat, fstr) in ...: if fstat in stats\<close>.\<close>

definition fields_if_stat ::
  "stats \<Rightarrow> string \<Rightarrow> string \<Rightarrow> (string \<times> string) list \<Rightarrow> munin_field list" where
  "fields_if_stat st d t xs =
     map (\<lambda>(fname, fstat). addField fname d t) (filter (\<lambda>(fname, fstat). dict_has fstat st) xs)"

definition appendGraph :: "bool \<Rightarrow> string \<Rightarrow> munin_field list \<Rightarrow> schema" where
  "appendGraph c name fs = (if c then [(name, fs)] else [])"

definition init_graphs :: "string set \<Rightarrow> stats \<Rightarrow> schema" where
  "init_graphs en st =
     appendGraph (''memcached_connections'' \<in> en \<and> dict_has ''curr_connections'' st)
       ''memcached_connections'' [addField ''conn'' ''LINE2'' ''GAUGE'']
   @ appendGraph (''memcached_items'' \<in> en \<and> dict_has ''curr_items'' st)
       ''memcached_items'' [addField ''items'' ''LINE2'' ''GAUGE'']
   @ appendGraph (''memcached_memory'' \<in> en \<and> dict_has ''bytes'' st)
       ''memcached_memory'' [addField ''bytes'' ''LINE2'' ''GAUGE'']
   @ appendGraph (''memcached_connrate'' \<in> en \<and> dict_has ''total_connections'' st)
       ''memcached_connrate'' [addField ''conn'' ''LINE2'' ''DERIVE'']
   @ appendGraph (''memcached_traffic'' \<in> en \<and> dict_has ''bytes_read'' st
                  \<and> dict_has ''bytes_written'' st)
       ''memcached_traffic''
       [addField ''rxbytes'' ''LINE2'' ''DERIVE'', addField ''txbytes'' ''LINE2'' ''DERIVE'']
   @ appendGraph (''memcached_reqrate'' \<in> en \<and> dict_has ''cmd_set'' st
                  \<and> dict_has ''cmd_get'' st)
       ''memcached_reqrate''
       (fields_if_stat st ''AREASTACK'' ''DERIVE''
          [(''set'', ''cmd_set''), (''get'', ''cmd_get''), (''del'', ''delete_hits''),
           (''cas'', ''cas_hits''), (''incr'', ''incr_hits''), (''decr'', ''decr_hits'')])
   @ appendGraph (''memcached_statget'' \<in> en \<and> dict_has ''cmd_get'' st)
       ''memcached_statget''
       [addField ''hit'' ''AREASTACK'' ''DERIVE'', addField ''miss'' ''AREASTACK'' ''DERIVE'',
        addField ''total'' ''LINE1'' ''DERIVE'']
   @ appendGraph (''memcached_statset'' \<in> en \<and> dict_has ''cmd_set'' st)
       ''memcached_statset''
       [addField ''hit'' ''AREASTACK'' ''DERIVE'', addField ''miss'' ''AREASTACK'' ''DERIVE'',
        addField ''total'' ''LINE1'' ''DERIVE'']
   @ appendGraph (''memcached_statdel'' \<in> en \<and> dict_has ''delete_hits'' st)
       ''memcached_statdel''
       [addField ''hit'' ''AREASTACK'' ''DERIVE'', addField ''miss'' ''AREASTACK'' ''DERIVE'',
        addField ''total'' ''LINE1'' ''DERIVE'']
   @ appendGraph (''memcached_statcas'' \<in> en \<and> dict_has ''cas_hits'' st)
       ''memcached_statcas''
       [addField ''hit'' ''AREASTACK'' ''DERIVE'', addField ''miss'' ''AREASTACK'' ''DERIVE'',
        addField ''badval'' ''AREASTACK'' ''DERIVE'', addField ''total'' ''LINE1'' ''DERIVE'']
   @ appendGraph (''memcached_statincrdecr'' \<in> en \<and> dict_has ''incr_hits'' st
                  \<and> dict_has ''decr_hits'' st)
       ''memcached_statincrdecr''
       [addField ''incr_hit'' ''AREASTACK'' ''DERIVE'',
        addField ''decr_hit'' ''AREASTACK'' ''DERIVE'',
        addField ''incr_miss'' ''AREASTACK'' ''DERIVE'',
        addField ''decr_miss'' ''AREASTACK'' ''DERIVE'',
        addField ''total'' ''LINE1'' ''DERIVE'']
   @ appendGraph (''memcached_statevict'' \<in> en \<and> dict_has ''evictions'' st)
       ''memcached_statevict''
       (addField ''evict'' ''LINE2'' ''DERIVE''
        # fields_if_stat st ''LINE2'' ''DERIVE'' [(''reclaim'', ''reclaimed'')])
   @ appendGraph (''memcached_statauth'' \<in> en \<and> dict_has ''auth_cmds'' st)
       ''memcached_statauth''
       [addField ''reqs'' ''LINE2'' ''DERIVE'', addField ''errors'' ''LINE2'' ''DERIVE'']
   @ appendGraph (''memcached_hitpct'' \<in> en \<and> dict_has ''cmd_set'' st
                  \<and> dict_has ''cmd_get'' st)
       ''memcached_hitpct''
       (addField ''set'' ''LINE2'' ''GAUGE''
        # fields_if_stat st ''LINE2'' ''GAUGE''
            [(''get'', ''cmd_get''), (''del'', ''delete_hits''), (''cas'', ''cas_hits''),
             (''incr'', ''incr_hits''), (''decr'', ''decr_hits'')])"

text \<open>
  \<^verbatim>\<open>__init__\<close>: \<open>en\<close> is the set of enabled graph names (\<^verbatim>\<open>graphEnabled\<close>), \<open>stored\<close>
  what \<^verbatim>\<open>restoreState()\<close> returns, \<open>fetched\<close> what \<^verbatim>\<open>getStats()\<close> returns when it is
  called. The schema is built from the restored dictionary when there is one, and from
  the fetched one otherwise.
\<close>

definition init_plugin :: "string set \<Rightarrow> stats option \<Rightarrow> stats option \<Rightarrow> error + plugin" where
  "init_plugin en stored fetched =
     (let st = (case stored of None \<Rightarrow> fetched | Some prev \<Rightarrow> None);
          build = (case stored of None \<Rightarrow> st | Some prev \<Rightarrow> Some prev)
      in case build of
           None \<Rightarrow> Inl (Exception ''Undetermined error accesing stats.'')
         | Some b \<Rightarrow>
             Inr \<lparr>graphs = init_graphs en b,
                  self_stats = st,
                  self_prev_stats = stored,
                  vals = [],
                  state_store = stored,
                  event_log = RestoreState # (case stored of None \<Rightarrow> [GetStats] | Some prev \<Rightarrow> [])\<rparr>)"

subsection \<open>One cycle: \<^verbatim>\<open>retrieveVals\<close>\<close>

text \<open>
  Lines 314 to 316: \<^verbatim>\<open>set_hits\<close> is always written (\<^verbatim>\<open>None\<close> when \<^verbatim>\<open>total_items\<close> is
  missing), \<^verbatim>\<open>set_misses\<close> when both \<^verbatim>\<open>cmd_set\<close> and \<^verbatim>\<open>total_items\<close> are there.
\<close>

definition set_hits_misses :: "stats \<Rightarrow> error + stats" where
  "set_hits_misses st0 =
     (let st = dict_set st0 ''set_hits'' (dict_get st0 ''total_items'')
      in if dict_has ''cmd_set'' st \<and> dict_has ''total_items'' st
         then err_bind (dict_item st ''cmd_set'') (\<lambda>a.
              err_bind (dict_item st ''total_items'') (\<lambda>b.
              err_bind (py_sub a b) (\<lambda>d.
              Inr (dict_set st ''set_misses'' d))))
         else Inr st)"

text \<open>The body of the loop of lines 419 to 440.\<close>

definition hitpct_field :: "stats \<Rightarrow> stats option \<Rightarrow> string \<times> string \<times> string \<Rightarrow> step" where
  "hitpct_field st prev_stats = (\<lambda>(field_name, field_hits, field_misses) p.
     (case prev_stats of
        None \<Rightarrow> Inr p
      | Some prev \<Rightarrow>
          if truthy prev_stats
          then (if dict_has field_hits st \<and> dict_has field_hits prev
                   \<and> dict_has field_misses st \<and> dict_has field_misses prev
                then err_bind (dict_item st field_hits) (\<lambda>ch.
                     err_bind (dict_item prev field_hits) (\<lambda>ph.
                     err_bind (py_sub ch ph) (\<lambda>hits.
                     err_bind (dict_item st field_misses) (\<lambda>cm.
                     err_bind (dict_item prev field_misses) (\<lambda>pm.
                     err_bind (py_sub cm pm) (\<lambda>misses.
                     err_bind (py_add hits misses) (\<lambda>tot.
                     err_bind (hitpct_val hits tot) (\<lambda>val.
                       setGraphVal ''memcached_hitpct'' field_name val p))))))))
                else Inr p)
          else Inr p))"

text \<open>The tuple of line 419: field, hit counter, miss counter.\<close>

definition hitpct_fields :: "(string \<times> string \<times> string) list" where
  "hitpct_fields =
    [(''set'', ''set_hits'', ''set_misses''),
     (''get'', ''get_hits'', ''get_misses''),
     (''del'', ''delete_hits'', ''delete_misses''),
     (''cas'', ''cas_hits'', ''cas_misses''),
     (''incr'', ''incr_hits'', ''incr_misses''),
     (''decr'', ''decr_hits'', ''decr_misses'')]"

definition retrieve_steps :: "stats \<Rightarrow> stats option \<Rightarrow> step list" where
  "retrieve_steps st prev_stats =
   [ifGraph ''memcached_connections''
      [setGraphVal ''memcached_connections'' ''conn'' (dict_get st ''curr_connections'')],
    ifGraph ''memcached_items''
      [setGraphVal ''memcached_items'' ''items'' (dict_get st ''curr_items'')],
    ifGraph ''memcached_memory''
      [setGraphVal ''memcached_memory'' ''bytes'' (dict_get st ''bytes'')],
    ifGraph ''memcached_connrate''
      [setGraphVal ''memcached_connrate'' ''conn'' (dict_get st ''total_connections'')],
    ifGraph ''memcached_traffic''
      [setGraphVal ''memcached_traffic'' ''rxbytes'' (dict_get st ''bytes_read''),
       setGraphVal ''memcached_traffic'' ''txbytes'' (dict_get st ''bytes_written'')],
    ifGraph ''memcached_reqrate''
      [setGraphVal ''memcached_reqrate'' ''set'' (dict_get st ''cmd_set''),
       setGraphVal ''memcached_reqrate'' ''get'' (dict_get st ''cmd_get''),
       ifField ''memcached_reqrate'' ''del''
         [setGraphVal ''memcached_reqrate'' ''del''
            (safe_sum [dict_get st ''delete_hits'', dict_get st ''delete_misses''])],
       ifField ''memcached_reqrate'' ''cas''
         [setGraphVal ''memcached_reqrate'' ''cas''
            (safe_sum [dict_get st ''cas_hits'', dict_get st ''cas_misses'',
                       dict_get st ''cas_badval''])],
       ifField ''memcached_reqrate'' ''incr''
         [setGraphVal ''memcached_reqrate'' ''incr''
            (safe_sum [dict_get st ''incr_hits'', dict_get st ''incr_misses''])],
       ifField ''memcached_reqrate'' ''decr''
         [setGraphVal ''memcached_reqrate'' ''decr''
            (safe_sum [dict_get st ''decr_hits'', dict_get st ''decr_misses''])]],
    ifGraph ''memcached_statget''
      [setGraphVal ''memcached_statget'' ''hit'' (dict_get st ''get_hits''),
       setGraphVal ''memcached_statget'' ''miss'' (dict_get st ''get_misses''),
       setGraphVal ''memcached_statget'' ''total''
         (safe_sum [dict_get st ''get_hits'', dict_get st ''get_misses''])],
    ifGraph ''memcached_statset''
      [setGraphVal ''memcached_statset'' ''hit'' (dict_get st ''set_hits''),
       setGraphVal ''memcached_statset'' ''miss'' (dict_get st ''set_misses''),
       setGraphVal ''memcached_statset'' ''total''
         (safe_sum [dict_get st ''set_hits'', dict_get st ''set_misses''])],
    ifGraph ''memcached_statdel''
      [setGraphVal ''memcached_statdel'' ''hit'' (dict_get st ''delete_hits''),
       setGraphVal ''memcached_statdel'' ''miss'' (dict_get st ''delete_misses''),
       setGraphVal ''memcached_statdel'' ''total''
         (safe_sum [dict_get st ''delete_hits'', dict_get st ''delete_misses''])],
    ifGraph ''memcached_statcas''
      [setGraphVal ''memcached_statcas'' ''hit'' (dict_get st ''cas_hits''),
       setGraphVal ''memcached_statcas'' ''miss'' (dict_get st ''cas_misses''),
       setGraphVal ''memcached_statcas'' ''badval'' (dict_get st ''cas_badval''),
       setGraphVal ''memcached_statcas'' ''total''
         (safe_sum [dict_get st ''cas_hits'', dict_get st ''cas_misses'',
                    dict_get st ''cas_badval''])],
    ifGraph ''memcached_statincrdecr''
      [setGraphVal ''memcached_statincrdecr'' ''incr_hit'' (dict_get st ''incr_hits''),
       setGraphVal ''memcached_statincrdecr'' ''decr_hit'' (dict_get st ''decr_hits''),
       setGraphVal ''memcached_statincrdecr'' ''incr_miss'' (dict_get st ''incr_misses''),
       setGraphVal ''memcached_statincrdecr'' ''decr_miss'' (dict_get st ''decr_misses''),
       setGraphVal ''memcached_statincrdecr'' ''total''
         (safe_sum [dict_get st ''incr_hits'', dict_get st ''decr_hits'',
                    dict_get st ''incr_misses'', dict_get st ''decr_misses''])],
    ifGraph ''memcached_statevict''
      [setGraphVal ''memcached_statevict'' ''evict'' (dict_get st ''evictions''),
       ifField ''memcached_statevict'' ''reclaim''
         [setGraphVal ''memcached_statevict'' ''reclaim'' (dict_get st ''reclaimed'')]],
    ifGraph ''memcached_statauth''
      [setGraphVal ''memcached_statauth'' ''reqs'' (dict_get st ''auth_cmds''),
       setGraphVal ''memcached_statauth'' ''errors'' (dict_get st ''auth_errors'')],
    ifGraph ''memcached_hitpct''
      (map (hitpct_field st prev_stats) hitpct_fields)]"

text \<open>
  The dictionary a cycle works on: the one the constructor fetched and kept in
  \<^verbatim>\<open>self._stats\<close>, or else the one \<^verbatim>\<open>getStats()\<close> returns now.
\<close>

definition current_stats :: "plugin \<Rightarrow> stats option \<Rightarrow> stats option" where
  "current_stats p fetched = (case self_stats p of None \<Rightarrow> fetched | Some s \<Rightarrow> Some s)"

text \<open>
  \<^verbatim>\<open>retrieveVals\<close>: \<open>fetched\<close> is what \<^verbatim>\<open>getStats()\<close> returns when the method calls it,
  that is when the constructor did not. The dictionary is changed in place, so a
  dictionary kept in \<^verbatim>\<open>self._stats\<close> changes with it; \<^verbatim>\<open>saveState\<close> comes right after.
\<close>

definition retrieveVals :: "plugin \<Rightarrow> stats option \<Rightarrow> error + plugin" where
  "retrieveVals p fetched =
     (let p1 = (case self_stats p of
                  None \<Rightarrow> p\<lparr>event_log := event_log p @ [GetStats]\<rparr>
                | Some s \<Rightarrow> p)
      in case current_stats p fetched of
           None \<Rightarrow> Inl (Exception ''Undetermined error accesing stats.'')
         | Some st0 \<Rightarrow>
             err_bind (set_hits_misses st0) (\<lambda>st.
               run_steps (retrieve_steps st (self_prev_stats p))
                 (p1\<lparr>self_stats := (case self_stats p of None \<Rightarrow> None | Some s \<Rightarrow> Some st),
                     state_store := Some st,
                     event_log := event_log p1 @ [SaveState]\<rparr>)))"

text \<open>
  One run of the plugin, as \<^verbatim>\<open>muninMain\<close> drives it: the constructor, then
  \<^verbatim>\<open>retrieveVals\<close>. The server is asked once, by whichever of the two needs it.
\<close>

definition run_plugin :: "string set \<Rightarrow> stats option \<Rightarrow> stats option \<Rightarrow> error + plugin" where
  "run_plugin en stored fetched =
     err_bind (init_plugin en stored fetched) (\<lambda>p. retrieveVals p fetched)"

text \<open>What a run leaves behind, for statements about a concrete run.\<close>

definition result_log :: "error + plugin \<Rightarrow> error + event list" where
  "result_log r = map_sum id event_log r"

definition result_store :: "error + plugin \<Rightarrow> error + stats option" where
  "result_store r = map_sum id state_store r"

section \<open>Tables of the specification\<close>

text \<open>
  The catalog of the specification: each graph with the counters it requires.
\<close>

definition catalog :: "(string \<times> string list) list" where
  "catalog =
    [(''memcached_connections'', [''curr_connections'']),
     (''memcached_items'', [''curr_items'']),
     (''memcached_memory'', [''bytes'']),
     (''memcached_connrate'', [''total_connections'']),
     (''memcached_traffic'', [''bytes_read'', ''bytes_written'']),
     (''memcached_reqrate'', [''cmd_set'', ''cmd_get'']),
     (''memcached_statget'', [''cmd_get'']),
     (''memcached_statset'', [''cmd_set'']),
     (''memcached_statdel'', [''delete_hits'']),
     (''memcached_statcas'', [''cas_hits'']),
     (''memcached_statincrdecr'', [''incr_hits'', ''decr_hits'']),
     (''memcached_statevict'', [''evictions'']),
     (''memcached_statauth'', [''auth_cmds'']),
     (''memcached_hitpct'', [''cmd_set'', ''cmd_get''])]"

text \<open>
  The conditional fields of the code: graph, field, and the counter whose presence adds
  the field to its graph.
\<close>

definition conditional_fields :: "(string \<times> string \<times> string) list" where
  "conditional_fields =
    [(''memcached_reqrate'', ''del'', ''delete_hits''),
     (''memcached_reqrate'', ''cas'', ''cas_hits''),
     (''memcached_reqrate'', ''incr'', ''incr_hits''),
     (''memcached_reqrate'', ''decr'', ''decr_hits''),
     (''memcached_statevict'', ''reclaim'', ''reclaimed''),
     (''memcached_hitpct'', ''del'', ''delete_hits''),
     (''memcached_hitpct'', ''cas'', ''cas_hits''),
     (''memcached_hitpct'', ''incr'', ''incr_hits''),
     (''memcached_hitpct'', ''decr'', ''decr_hits'')]"

text \<open>The combined-sum fields: graph, field, and the counters that are summed.\<close>

definition combined_fields :: "(string \<times> string \<times> string list) list" where
  "combined_fields =
    [(''memcached_reqrate'', ''del'', [''delete_hits'', ''delete_misses'']),
     (''memcached_reqrate'', ''cas'', [''cas_hits'', ''cas_misses'', ''cas_badval'']),
     (''memcached_reqrate'', ''incr'', [''incr_hits'', ''incr_misses'']),
     (''memcached_reqrate'', ''decr'', [''decr_hits'', ''decr_misses'']),
     (''memcached_statget'', ''total'', [''get_hits'', ''get_misses'']),
     (''memcached_statset'', ''total'', [''set_hits'', ''set_misses'']),
     (''memcached_statdel'', ''total'', [''delete_hits'', ''delete_misses'']),
     (''memcached_statcas'', ''total'', [''cas_hits'', ''cas_misses'', ''cas_badval'']),
     (''memcached_statincrdecr'', ''total'',
        [''incr_hits'', ''decr_hits'', ''incr_misses'', ''decr_misses''])]"

section \<open>Properties of a step\<close>

fun is_SetVal :: "event \<Rightarrow> bool" where
  "is_SetVal (SetVal g f) = True"
| "is_SetVal e = False"

text \<open>
  A step of the value part of \<^verbatim>\<open>retrieveVals\<close> touches nothing but the values and the
  log: it adds \<^verbatim>\<open>SetVal\<close> events only, and every value it adds is for a field of the schema.
\<close>

definition frame :: "step \<Rightarrow> bool" where
  "frame s = (\<forall>p p'. s p = Inr p' \<longrightarrow>
     graphs p' = graphs p \<and> self_stats p' = self_stats p
     \<and> self_prev_stats p' = self_prev_stats p \<and> state_store p' = state_store p
     \<and> (\<exists>evs. event_log p' = event_log p @ evs \<and> list_all is_SetVal evs)
     \<and> (\<forall>g f. map_of (vals p') (g, f) \<noteq> None \<longrightarrow>
            map_of (vals p) (g, f) \<noteq> None \<or> graphHasField p g f))"

text \<open>A step that leaves the value of one field alone.\<close>

definition keeps :: "string \<times> string \<Rightarrow> step \<Rightarrow> bool" where
  "keeps k s = (\<forall>p p'. s p = Inr p' \<longrightarrow> map_of (vals p') k = map_of (vals p) k)"

text \<open>A step that, run on a plugin with the schema \<open>G\<close>, sets one field to \<open>v\<close>.\<close>

definition sets_val :: "schema \<Rightarrow> string \<times> string \<Rightarrow> pyval \<Rightarrow> step \<Rightarrow> bool" where
  "sets_val G k v s = (\<forall>p p'. graphs p = G \<longrightarrow> s p = Inr p' \<longrightarrow> map_of (vals p') k = Some v)"

text \<open>
  A step whose outcome depends on the schema alone: on every plugin with the schema \<open>G\<close>
  it raises the same exception, or it writes the same values \<open>m\<close> over the old ones.
\<close>

definition uniform :: "step \<Rightarrow> bool" where
  "uniform s = (\<forall>G. (\<exists>e. \<forall>p. graphs p = G \<longrightarrow> s p = Inl e)
     \<or> (\<exists>m. \<forall>p. graphs p = G \<longrightarrow>
           (\<exists>p'. s p = Inr p' \<and> graphs p' = G \<and> map_of (vals p') = map_of (vals p) ++ m)))"

section \<open>Basic facts\<close>

lemma err_bind_Inr: "err_bind m f = Inr y \<longleftrightarrow> (\<exists>x. m = Inr x \<and> f x = Inr y)"
  by (cases m) auto

lemma run_steps_append_Inr:
  "run_steps (xs @ ys) p = Inr p' \<longleftrightarrow> (\<exists>q. run_steps xs p = Inr q \<and> run_steps ys q = Inr p')"
  by (induction xs arbitrary: p) (auto split: sum.splits)


lemma py_add_Inr:
  "py_add a b = Inr c \<Longrightarrow>
     py_is_num a \<and> py_is_num b \<and> py_is_num c \<and> num_val c = num_val a + num_val b"
  by (cases a; cases b) auto

lemma graphHasField_cong: "graphs q = graphs p \<Longrightarrow> graphHasField q g f = graphHasField p g f"
  by (simp add: graphHasField_def)

subsection \<open>The value steps touch the values and the log only\<close>

lemma frame_setGraphVal: "frame (setGraphVal g f v)"
  by (auto simp: frame_def setGraphVal_def update_conv' split: if_splits)

lemma frame_run_steps: "list_all frame ss \<Longrightarrow> frame (run_steps ss)"
proof (induction ss)
  case Nil
  show ?case by (simp add: frame_def)
next
  case (Cons s ss)
  then have s: "frame s" and ss: "frame (run_steps ss)" by simp_all
  show ?case
    unfolding frame_def
  proof (intro allI impI)
    fix p p' assume "run_steps (s # ss) p = Inr p'"
    then obtain q where q: "s p = Inr q" and r: "run_steps ss q = Inr p'"
      by (auto split: sum.splits)
    from s q have 1: "graphs q = graphs p" "self_stats q = self_stats p"
      "self_prev_stats q = self_prev_stats p" "state_store q = state_store p"
      "\<exists>evs. event_log q = event_log p @ evs \<and> list_all is_SetVal evs"
      "\<forall>g f. map_of (vals q) (g, f) \<noteq> None \<longrightarrow>
         map_of (vals p) (g, f) \<noteq> None \<or> graphHasField p g f"
      unfolding frame_def by blast+
    from ss r have 2: "graphs p' = graphs q" "self_stats p' = self_stats q"
      "self_prev_stats p' = self_prev_stats q" "state_store p' = state_store q"
      "\<exists>evs. event_log p' = event_log q @ evs \<and> list_all is_SetVal evs"
      "\<forall>g f. map_of (vals p') (g, f) \<noteq> None \<longrightarrow>
         map_of (vals q) (g, f) \<noteq> None \<or> graphHasField q g f"
      unfolding frame_def by blast+
    from 1(5) 2(5) obtain e1 e2 where
      "event_log p' = event_log p @ (e1 @ e2)" "list_all is_SetVal (e1 @ e2)"
      by auto
    then have ev: "\<exists>evs. event_log p' = event_log p @ evs \<and> list_all is_SetVal evs"
      by blast
    have vs: "\<forall>g f. map_of (vals p') (g, f) \<noteq> None \<longrightarrow>
        map_of (vals p) (g, f) \<noteq> None \<or> graphHasField p g f"
      using 1(6) 2(6) graphHasField_cong[OF 1(1)] by metis
    show "graphs p' = graphs p \<and> self_stats p' = self_stats p
     \<and> self_prev_stats p' = self_prev_stats p \<and> state_store p' = state_store p
     \<and> (\<exists>evs. event_log p' = event_log p @ evs \<and> list_all is_SetVal evs)
     \<and> (\<forall>g f. map_of (vals p') (g, f) \<noteq> None \<longrightarrow>
            map_of (vals p) (g, f) \<noteq> None \<or> graphHasField p g f)"
      using 1 2 ev vs by simp
  qed
qed

lemma frame_ifGraph: "list_all frame ss \<Longrightarrow> frame (ifGraph g ss)"
  using frame_run_steps[of ss] by (auto simp: frame_def ifGraph_def split: if_splits)

lemma frame_ifField: "list_all frame ss \<Longrightarrow> frame (ifField g f ss)"
  using frame_run_steps[of ss] by (auto simp: frame_def ifField_def split: if_splits)

lemma hitpct_field_cases:
  "hitpct_field st prev x p = Inr p' \<Longrightarrow>
     p' = p \<or> (\<exists>v. setGraphVal ''memcached_hitpct'' (fst x) v p = Inr p')"
  by (cases x) (auto simp: hitpct_field_def err_bind_Inr split: option.splits if_splits)

lemma frame_hitpct_field: "frame (hitpct_field st prev x)"
  unfolding frame_def
proof (intro allI impI)
  fix p p' assume "hitpct_field st prev x p = Inr p'"
  then consider "p' = p" | v where "setGraphVal ''memcached_hitpct'' (fst x) v p = Inr p'"
    using hitpct_field_cases by blast
  then show "graphs p' = graphs p \<and> self_stats p' = self_stats p
     \<and> self_prev_stats p' = self_prev_stats p \<and> state_store p' = state_store p
     \<and> (\<exists>evs. event_log p' = event_log p @ evs \<and> list_all is_SetVal evs)
     \<and> (\<forall>g f. map_of (vals p') (g, f) \<noteq> None \<longrightarrow>
            map_of (vals p) (g, f) \<noteq> None \<or> graphHasField p g f)"
  proof cases
    case 1
    then show ?thesis by simp
  next
    case 2
    with frame_setGraphVal show ?thesis unfolding frame_def by blast
  qed
qed

lemma frame_retrieve_steps: "list_all frame (retrieve_steps st prev)"
  by (simp add: retrieve_steps_def frame_ifGraph frame_ifField frame_setGraphVal
      frame_hitpct_field list_all_iff)

lemma setGraphVal_Inr:
  "setGraphVal g f v p = Inr p' \<Longrightarrow>
     graphs p' = graphs p \<and> map_of (vals p') = (map_of (vals p))((g, f) \<mapsto> v)"
  by (auto simp: setGraphVal_def update_conv' split: if_splits)

lemma keeps_setGraphVal: "(g, f) \<noteq> k \<Longrightarrow> keeps k (setGraphVal g f v)"
  by (auto simp: keeps_def dest!: setGraphVal_Inr)

lemma keeps_run_steps: "list_all (keeps k) ss \<Longrightarrow> keeps k (run_steps ss)"
proof (induction ss)
  case Nil
  show ?case by (simp add: keeps_def)
next
  case (Cons s ss)
  then have s: "keeps k s" and ss: "keeps k (run_steps ss)" by simp_all
  show ?case
    unfolding keeps_def
  proof (intro allI impI)
    fix p p' assume "run_steps (s # ss) p = Inr p'"
    then obtain q where q: "s p = Inr q" and r: "run_steps ss q = Inr p'"
      by (auto split: sum.splits)
    from s q have "map_of (vals q) k = map_of (vals p) k" unfolding keeps_def by blast
    moreover from ss r have "map_of (vals p') k = map_of (vals q) k" unfolding keeps_def by blast
    ultimately show "map_of (vals p') k = map_of (vals p) k" by simp
  qed
qed

lemma keeps_ifGraph: "list_all (keeps k) ss \<Longrightarrow> keeps k (ifGraph g ss)"
  using keeps_run_steps[of k ss] by (auto simp: keeps_def ifGraph_def split: if_splits)

lemma keeps_ifField: "list_all (keeps k) ss \<Longrightarrow> keeps k (ifField g f ss)"
  using keeps_run_steps[of k ss] by (auto simp: keeps_def ifField_def split: if_splits)

lemma keeps_hitpct_field: "k \<noteq> (''memcached_hitpct'', fst x) \<Longrightarrow> keeps k (hitpct_field st prev x)"
  unfolding keeps_def
proof (intro allI impI)
  fix p p' assume k: "k \<noteq> (''memcached_hitpct'', fst x)" and "hitpct_field st prev x p = Inr p'"
  then consider "p' = p" | v where "setGraphVal ''memcached_hitpct'' (fst x) v p = Inr p'"
    using hitpct_field_cases by blast
  then show "map_of (vals p') k = map_of (vals p) k"
  proof cases
    case 1
    then show ?thesis by simp
  next
    case 2
    from setGraphVal_Inr[OF 2] k show ?thesis by auto
  qed
qed


lemma sets_setGraphVal: "sets_val G (g, f) v (setGraphVal g f v)"
  by (auto simp: sets_val_def dest!: setGraphVal_Inr)

lemma sets_run_steps:
  assumes "ss = xs @ s # ys" "list_all frame xs" "sets_val G k v s" "list_all (keeps k) ys"
  shows "sets_val G k v (run_steps ss)"
  unfolding sets_val_def
proof (intro allI impI)
  fix p p' assume G: "graphs p = G" and run: "run_steps ss p = Inr p'"
  from run assms(1) obtain q where q: "run_steps xs p = Inr q" and r: "run_steps (s # ys) q = Inr p'"
    by (auto simp: run_steps_append_Inr)
  from r obtain q' where q': "s q = Inr q'" and r': "run_steps ys q' = Inr p'"
    by (auto split: sum.splits)
  from frame_run_steps[OF assms(2)] q have "graphs q = G" using G unfolding frame_def by blast
  with assms(3) q' have "map_of (vals q') k = Some v" unfolding sets_val_def by blast
  moreover from keeps_run_steps[OF assms(4)] r' have "map_of (vals p') k = map_of (vals q') k"
    unfolding keeps_def by blast
  ultimately show "map_of (vals p') k = Some v" by simp
qed

lemma sets_run_steps_nth:
  assumes "i < length ss" "list_all frame (take i ss)" "sets_val G k v (ss ! i)"
    "list_all (keeps k) (drop (Suc i) ss)"
  shows "sets_val G k v (run_steps ss)"
  using sets_run_steps[OF id_take_nth_drop[OF assms(1)] assms(2,3,4)] .

lemma sets_ifGraph:
  "schema_has_graph G g \<Longrightarrow> sets_val G k v (run_steps ss) \<Longrightarrow> sets_val G k v (ifGraph g ss)"
  by (auto simp: sets_val_def ifGraph_def hasGraph_def)

lemma sets_ifField:
  "schema_has_field G g f \<Longrightarrow> sets_val G k v (run_steps ss) \<Longrightarrow> sets_val G k v (ifField g f ss)"
  by (auto simp: sets_val_def ifField_def graphHasField_def)

lemma dict_has_iff: "dict_has k d \<longleftrightarrow> map_of d k \<noteq> None"
  by (simp add: dict_has_def split: option.splits)

lemma map_of_dict_set: "map_of (dict_set d k v) = (map_of d)(k \<mapsto> v)"
  by (simp add: dict_set_def update_conv')


text \<open>What lines 314 to 316 do to the dictionary.\<close>

lemma set_hits_misses_Inr:
  assumes "set_hits_misses st0 = Inr st"
  shows "map_of st ''set_hits'' = Some (dict_get st0 ''total_items'')"
    and "\<And>k. k \<noteq> ''set_hits'' \<Longrightarrow> k \<noteq> ''set_misses'' \<Longrightarrow> map_of st k = map_of st0 k"
    and "dict_has ''cmd_set'' st0 \<Longrightarrow> dict_has ''total_items'' st0 \<Longrightarrow>
           \<exists>d. py_sub (dict_get st0 ''cmd_set'') (dict_get st0 ''total_items'') = Inr d
              \<and> map_of st ''set_misses'' = Some d"
    and "\<not> (dict_has ''cmd_set'' st0 \<and> dict_has ''total_items'' st0) \<Longrightarrow>
           map_of st ''set_misses'' = map_of st0 ''set_misses''"
  using assms
  by (auto simp: set_hits_misses_def Let_def dict_has_iff map_of_dict_set err_bind_Inr
      dict_item_def dict_get_def split: if_splits option.splits)

lemma retrieveVals_Inr:
  assumes "retrieveVals p fetched = Inr p'"
  obtains st0 st p1 where
    "current_stats p fetched = Some st0" "set_hits_misses st0 = Inr st"
    "run_steps (retrieve_steps st (self_prev_stats p)) p1 = Inr p'"
    "graphs p1 = graphs p" "vals p1 = vals p" "self_prev_stats p1 = self_prev_stats p"
    "state_store p1 = Some st"
    "self_stats p1 = (case self_stats p of None \<Rightarrow> None | Some s \<Rightarrow> Some st)"
    "event_log p1 = event_log p @ (case self_stats p of None \<Rightarrow> [GetStats] | Some s \<Rightarrow> []) @ [SaveState]"
proof -
  from assms obtain st0 where c: "current_stats p fetched = Some st0"
    by (auto simp: retrieveVals_def Let_def split: option.splits)
  with assms obtain st where e: "set_hits_misses st0 = Inr st"
    by (auto simp: retrieveVals_def Let_def err_bind_Inr)
  define p1 where "p1 = (case self_stats p of
                  None \<Rightarrow> p\<lparr>event_log := event_log p @ [GetStats]\<rparr>
                | Some s \<Rightarrow> p)\<lparr>self_stats := (case self_stats p of None \<Rightarrow> None | Some s \<Rightarrow> Some st),
                     state_store := Some st,
                     event_log := event_log (case self_stats p of
                  None \<Rightarrow> p\<lparr>event_log := event_log p @ [GetStats]\<rparr>
                | Some s \<Rightarrow> p) @ [SaveState]\<rparr>"
  have r: "run_steps (retrieve_steps st (self_prev_stats p)) p1 = Inr p'"
    using assms c e by (simp add: retrieveVals_def Let_def p1_def)
  show thesis
    by (rule that[OF c e r]) (simp_all add: p1_def split: option.splits)
qed

lemma init_plugin_Inr:
  assumes "init_plugin en stored fetched = Inr p"
  obtains b where
    "(case stored of None \<Rightarrow> fetched | Some prev \<Rightarrow> Some prev) = Some b"
    "graphs p = init_graphs en b" "vals p = []" "self_prev_stats p = stored"
    "self_stats p = (case stored of None \<Rightarrow> fetched | Some prev \<Rightarrow> None)"
    "state_store p = stored"
    "event_log p = RestoreState # (case stored of None \<Rightarrow> [GetStats] | Some prev \<Rightarrow> [])"
  using assms by (auto simp: init_plugin_def Let_def split: option.splits)

lemma retrieveVals_frame:
  assumes "retrieveVals p fetched = Inr p'"
  shows "graphs p' = graphs p"
    and "self_prev_stats p' = self_prev_stats p"
    and "\<exists>st0 st. current_stats p fetched = Some st0 \<and> set_hits_misses st0 = Inr st
           \<and> state_store p' = Some st"
    and "\<exists>sets. event_log p' = event_log p
           @ (case self_stats p of None \<Rightarrow> [GetStats] | Some s \<Rightarrow> []) @ [SaveState] @ sets
           \<and> list_all is_SetVal sets"
    and "\<And>g f. map_of (vals p') (g, f) \<noteq> None \<Longrightarrow>
           map_of (vals p) (g, f) \<noteq> None \<or> graphHasField p g f"
proof -
  from assms obtain st0 st p1 where
    c: "current_stats p fetched = Some st0" and e: "set_hits_misses st0 = Inr st" and
    r: "run_steps (retrieve_steps st (self_prev_stats p)) p1 = Inr p'" and
    p1: "graphs p1 = graphs p" "vals p1 = vals p" "self_prev_stats p1 = self_prev_stats p"
      "state_store p1 = Some st"
      "event_log p1 = event_log p @ (case self_stats p of None \<Rightarrow> [GetStats] | Some s \<Rightarrow> []) @ [SaveState]"
    by (rule retrieveVals_Inr)
  have "frame (run_steps (retrieve_steps st (self_prev_stats p)))"
    by (rule frame_run_steps[OF frame_retrieve_steps])
  with r have f: "graphs p' = graphs p1" "self_prev_stats p' = self_prev_stats p1"
    "state_store p' = state_store p1"
    "\<exists>evs. event_log p' = event_log p1 @ evs \<and> list_all is_SetVal evs"
    "\<forall>g f. map_of (vals p') (g, f) \<noteq> None \<longrightarrow>
         map_of (vals p1) (g, f) \<noteq> None \<or> graphHasField p1 g f"
    unfolding frame_def by blast+
  show "graphs p' = graphs p" using f(1) p1(1) by simp
  show "self_prev_stats p' = self_prev_stats p" using f(2) p1(3) by simp
  show "\<exists>st0 st. current_stats p fetched = Some st0 \<and> set_hits_misses st0 = Inr st
           \<and> state_store p' = Some st" using c e f(3) p1(4) by simp
  show "\<exists>sets. event_log p' = event_log p
           @ (case self_stats p of None \<Rightarrow> [GetStats] | Some s \<Rightarrow> []) @ [SaveState] @ sets
           \<and> list_all is_SetVal sets" using f(4) p1(5) by auto
  show "\<And>g f. map_of (vals p') (g, f) \<noteq> None \<Longrightarrow>
           map_of (vals p) (g, f) \<noteq> None \<or> graphHasField p g f"
    using f(5) p1(1,2) graphHasField_cong[OF p1(1)] by metis
qed

lemmas eval_defs = init_plugin_def init_graphs_def appendGraph_def fields_if_stat_def dict_has_def
  addField_def retrieveVals_def current_stats_def set_hits_misses_def dict_set_def dict_get_def
  dict_item_def retrieve_steps_def hitpct_fields_def ifGraph_def ifField_def hasGraph_def
  graphHasField_def schema_has_graph_def schema_has_field_def setGraphVal_def hitpct_field_def
  truthy_def graphVal_def safe_sum_def
  run_plugin_def

subsection \<open>Looking a graph up in the schema of the constructor\<close>

lemma map_of_appendGraph_append:
  "map_of (appendGraph c n fs @ rest) g = (if c \<and> g = n then Some fs else map_of rest g)"
  by (simp add: appendGraph_def)

lemma map_of_appendGraph:
  "map_of (appendGraph c n fs) g = (if c \<and> g = n then Some fs else None)"
  by (simp add: appendGraph_def)

lemma field_name_addField: "field_name (addField n d t) = n"
  by (simp add: addField_def)

lemma fields_if_stat_names:
  "f \<in> field_name ` set (fields_if_stat st d t xs)
     \<longleftrightarrow> (\<exists>fstat. (f, fstat) \<in> set xs \<and> dict_has fstat st)"
  by (auto simp: fields_if_stat_def field_name_addField image_iff)

lemmas schema_lookup = schema_has_graph_def schema_has_field_def init_graphs_def
  map_of_appendGraph_append map_of_appendGraph fields_if_stat_names field_name_addField

lemma schema_graphs_all:
  "list_all (\<lambda>(g, req).
      schema_has_graph (init_graphs en b) g \<longleftrightarrow> (g \<in> en \<and> list_all (\<lambda>k. dict_has k b) req))
    catalog"
  unfolding catalog_def
  apply (simp only: list.pred_inject prod.case)
  apply (intro conjI)
  apply (simp_all add: schema_lookup del: map_of_append)
  done

lemma schema_graphs:
  "\<forall>(g, req) \<in> set catalog.
      schema_has_graph (init_graphs en b) g \<longleftrightarrow> (g \<in> en \<and> list_all (\<lambda>k. dict_has k b) req)"
  using schema_graphs_all[of en b] by (simp only: list_all_iff)

lemma schema_graphs_only:
  "schema_has_graph (init_graphs en b) g \<Longrightarrow> g \<in> set (map fst catalog)"
  by (simp add: catalog_def schema_lookup del: map_of_append split: if_splits)

lemma schema_conditional_fields_all:
  "list_all (\<lambda>(g, f, k).
      schema_has_graph (init_graphs en b) g \<longrightarrow>
        (schema_has_field (init_graphs en b) g f \<longleftrightarrow> dict_has k b))
    conditional_fields"
  unfolding conditional_fields_def
  apply (simp only: list.pred_inject prod.case)
  apply (intro conjI)
  apply (simp_all add: schema_lookup del: map_of_append)
  done

lemma schema_conditional_fields:
  "\<forall>(g, f, k) \<in> set conditional_fields.
      schema_has_graph (init_graphs en b) g \<longrightarrow>
        (schema_has_field (init_graphs en b) g f \<longleftrightarrow> dict_has k b)"
  using schema_conditional_fields_all[of en b] by (simp only: list_all_iff)

lemma schema_hitpct_set_get:
  "schema_has_graph (init_graphs en b) ''memcached_hitpct'' \<longrightarrow>
     schema_has_field (init_graphs en b) ''memcached_hitpct'' ''set''
     \<and> schema_has_field (init_graphs en b) ''memcached_hitpct'' ''get''"
  by (simp add: schema_lookup del: map_of_append)

subsection \<open>Which step sets which field\<close>

lemma has_field_has_graph: "schema_has_field G g f \<Longrightarrow> schema_has_graph G g"
  by (auto simp: schema_has_field_def schema_has_graph_def split: option.splits)

lemma sets_single: "sets_val G (g, f) v (run_steps [setGraphVal g f v])"
  by (auto simp: sets_val_def split: sum.splits dest!: setGraphVal_Inr)

lemma sets_in_graph:
  assumes "schema_has_graph G g" "i < length blk" "list_all frame (take i blk)"
    "sets_val G k v (blk ! i)" "list_all (keeps k) (drop (Suc i) blk)"
  shows "sets_val G k v (ifGraph g blk)"
  by (rule sets_ifGraph[OF assms(1) sets_run_steps_nth[OF assms(2-5)]])

lemma sets_in_field:
  "schema_has_field G g f \<Longrightarrow> sets_val G (g, f) v (ifField g f [setGraphVal g f v])"
  by (rule sets_ifField[OF _ sets_single])

lemma keeps_map_hitpct:
  "fst k \<noteq> ''memcached_hitpct'' \<Longrightarrow> list_all (keeps k) (map (hitpct_field st prev) xs)"
  by (induction xs) (auto intro!: keeps_hitpct_field)

lemmas step_side = retrieve_steps_def frame_ifGraph frame_ifField frame_setGraphVal
  frame_hitpct_field keeps_ifGraph keeps_ifField keeps_setGraphVal keeps_map_hitpct




lemma sets_reqrate_del:
  assumes "schema_has_field G ''memcached_reqrate'' ''del''"
  shows "sets_val G (''memcached_reqrate'', ''del'')
           (safe_sum [dict_get st ''delete_hits'', dict_get st ''delete_misses''])
           (run_steps (retrieve_steps st prev))"
  apply (rule sets_run_steps_nth[where i=5])
     apply (simp_all add: step_side)
  apply (rule sets_in_graph[OF has_field_has_graph[OF assms], where i=2])
     apply (simp_all add: step_side sets_in_field[OF assms])
  done

lemma sets_reqrate_cas:
  assumes "schema_has_field G ''memcached_reqrate'' ''cas''"
  shows "sets_val G (''memcached_reqrate'', ''cas'')
           (safe_sum [dict_get st ''cas_hits'', dict_get st ''cas_misses'', dict_get st ''cas_badval''])
           (run_steps (retrieve_steps st prev))"
  apply (rule sets_run_steps_nth[where i=5])
     apply (simp_all add: step_side)
  apply (rule sets_in_graph[OF has_field_has_graph[OF assms], where i=3])
     apply (simp_all add: step_side sets_in_field[OF assms])
  done

lemma sets_reqrate_incr:
  assumes "schema_has_field G ''memcached_reqrate'' ''incr''"
  shows "sets_val G (''memcached_reqrate'', ''incr'')
           (safe_sum [dict_get st ''incr_hits'', dict_get st ''incr_misses''])
           (run_steps (retrieve_steps st prev))"
  apply (rule sets_run_steps_nth[where i=5])
     apply (simp_all add: step_side)
  apply (rule sets_in_graph[OF has_field_has_graph[OF assms], where i=4])
     apply (simp_all add: step_side sets_in_field[OF assms])
  done

lemma sets_reqrate_decr:
  assumes "schema_has_field G ''memcached_reqrate'' ''decr''"
  shows "sets_val G (''memcached_reqrate'', ''decr'')
           (safe_sum [dict_get st ''decr_hits'', dict_get st ''decr_misses''])
           (run_steps (retrieve_steps st prev))"
  apply (rule sets_run_steps_nth[where i=5])
     apply (simp_all add: step_side)
  apply (rule sets_in_graph[OF has_field_has_graph[OF assms], where i=5])
     apply (simp_all add: step_side sets_in_field[OF assms])
  done

lemma sets_statget_total:
  assumes "schema_has_field G ''memcached_statget'' ''total''"
  shows "sets_val G (''memcached_statget'', ''total'')
           (safe_sum [dict_get st ''get_hits'', dict_get st ''get_misses''])
           (run_steps (retrieve_steps st prev))"
  apply (rule sets_run_steps_nth[where i=6])
     apply (simp_all add: step_side)
  apply (rule sets_in_graph[OF has_field_has_graph[OF assms], where i=2])
     apply (simp_all add: step_side sets_setGraphVal)
  done

lemma sets_statset_total_field:
  assumes "schema_has_field G ''memcached_statset'' ''total''"
  shows "sets_val G (''memcached_statset'', ''total'')
           (safe_sum [dict_get st ''set_hits'', dict_get st ''set_misses''])
           (run_steps (retrieve_steps st prev))"
  apply (rule sets_run_steps_nth[where i=7])
     apply (simp_all add: step_side)
  apply (rule sets_in_graph[OF has_field_has_graph[OF assms], where i=2])
     apply (simp_all add: step_side sets_setGraphVal)
  done

lemma sets_statdel_total:
  assumes "schema_has_field G ''memcached_statdel'' ''total''"
  shows "sets_val G (''memcached_statdel'', ''total'')
           (safe_sum [dict_get st ''delete_hits'', dict_get st ''delete_misses''])
           (run_steps (retrieve_steps st prev))"
  apply (rule sets_run_steps_nth[where i=8])
     apply (simp_all add: step_side)
  apply (rule sets_in_graph[OF has_field_has_graph[OF assms], where i=2])
     apply (simp_all add: step_side sets_setGraphVal)
  done

lemma sets_statcas_total:
  assumes "schema_has_field G ''memcached_statcas'' ''total''"
  shows "sets_val G (''memcached_statcas'', ''total'')
           (safe_sum [dict_get st ''cas_hits'', dict_get st ''cas_misses'', dict_get st ''cas_badval''])
           (run_steps (retrieve_steps st prev))"
  apply (rule sets_run_steps_nth[where i=9])
     apply (simp_all add: step_side)
  apply (rule sets_in_graph[OF has_field_has_graph[OF assms], where i=3])
     apply (simp_all add: step_side sets_setGraphVal)
  done

lemma sets_statincrdecr_total:
  assumes "schema_has_field G ''memcached_statincrdecr'' ''total''"
  shows "sets_val G (''memcached_statincrdecr'', ''total'')
           (safe_sum [dict_get st ''incr_hits'', dict_get st ''decr_hits'', dict_get st ''incr_misses'', dict_get st ''decr_misses''])
           (run_steps (retrieve_steps st prev))"
  apply (rule sets_run_steps_nth[where i=10])
     apply (simp_all add: step_side)
  apply (rule sets_in_graph[OF has_field_has_graph[OF assms], where i=4])
     apply (simp_all add: step_side sets_setGraphVal)
  done

lemma sets_combined:
  assumes "(g, f, ks) \<in> set combined_fields" "schema_has_field G g f"
  shows "sets_val G (g, f) (safe_sum (map (dict_get st) ks)) (run_steps (retrieve_steps st prev))"
  using assms
  by (auto simp: combined_fields_def
      intro: sets_reqrate_del sets_reqrate_cas sets_reqrate_incr sets_reqrate_decr sets_statget_total sets_statset_total_field sets_statdel_total sets_statcas_total sets_statincrdecr_total)

subsection \<open>The sum of optional counters\<close>

lemma py_is_num_iff: "py_is_num v \<longleftrightarrow> v \<noteq> PyNone"
  by (cases v) auto

lemma plus_present_num:
  "py_is_num acc \<Longrightarrow> py_is_num (plus_present acc v)
     \<and> num_val (plus_present acc v) = num_val acc + num_val v"
  by (cases acc; cases v) auto

lemma foldl_plus_present:
  "py_is_num acc \<Longrightarrow> py_is_num (foldl plus_present acc xs)
     \<and> num_val (foldl plus_present acc xs) = num_val acc + sum_list (map num_val xs)"
proof (induction xs arbitrary: acc)
  case Nil
  then show ?case by simp
next
  case (Cons v xs)
  from plus_present_num[OF Cons.prems, of v] Cons.IH[of "plus_present acc v"]
  show ?case by (simp add: add.assoc)
qed

lemma safe_sum_all_absent: "list_all (\<lambda>v. v = PyNone) xs \<Longrightarrow> safe_sum xs = PyNone"
  by (simp add: safe_sum_def filter_empty_conv list_all_iff py_is_num_iff)

lemma safe_sum_some_present:
  assumes "\<not> list_all (\<lambda>v. v = PyNone) xs"
  shows "py_is_num (safe_sum xs) \<and> num_val (safe_sum xs) = sum_list (map num_val xs)"
proof -
  from assms have "filter py_is_num xs \<noteq> []"
    by (auto simp: filter_empty_conv list_all_iff py_is_num_iff)
  then have "safe_sum xs = foldl plus_present (PyInt 0) xs" by (simp add: safe_sum_def)
  with foldl_plus_present[of "PyInt 0" xs] show ?thesis by simp
qed

lemma retrieveVals_sets:
  assumes "retrieveVals p fetched = Inr p'" "current_stats p fetched = Some st0"
    "set_hits_misses st0 = Inr st"
    "sets_val (graphs p) (g, f) v (run_steps (retrieve_steps st (self_prev_stats p)))"
  shows "graphVal p' g f = v"
proof -
  from assms(1) obtain st0' st' p1 where
    c: "current_stats p fetched = Some st0'" and e: "set_hits_misses st0' = Inr st'" and
    r: "run_steps (retrieve_steps st' (self_prev_stats p)) p1 = Inr p'" and
    g: "graphs p1 = graphs p"
    by (rule retrieveVals_Inr)
  from c e assms(2,3) have "st' = st" by simp
  with r g assms(4) have "map_of (vals p') (g, f) = Some v" unfolding sets_val_def by blast
  then show ?thesis by (simp add: graphVal_def)
qed

subsection \<open>The hit percentages\<close>
















subsection \<open>Running a cycle again\<close>

lemma uniform_skip: "uniform Inr"
  unfolding uniform_def
proof (intro allI disjI2)
  fix G
  show "\<exists>m. \<forall>p. graphs p = G \<longrightarrow>
          (\<exists>p'. Inr p = Inr p' \<and> graphs p' = G \<and> map_of (vals p') = map_of (vals p) ++ m)"
    by (rule exI[of _ Map.empty]) simp
qed

lemma uniform_fail: "uniform (\<lambda>p. Inl e)"
  unfolding uniform_def by blast

lemma uniform_setGraphVal: "uniform (setGraphVal g f v)"
  unfolding uniform_def
proof
  fix G
  show "(\<exists>e. \<forall>p. graphs p = G \<longrightarrow> setGraphVal g f v p = Inl e)
     \<or> (\<exists>m. \<forall>p. graphs p = G \<longrightarrow>
           (\<exists>p'. setGraphVal g f v p = Inr p' \<and> graphs p' = G
              \<and> map_of (vals p') = map_of (vals p) ++ m))"
  proof (cases "schema_has_field G g f")
    case True
    have "\<forall>p. graphs p = G \<longrightarrow>
           (\<exists>p'. setGraphVal g f v p = Inr p' \<and> graphs p' = G
              \<and> map_of (vals p') = map_of (vals p) ++ [(g, f) \<mapsto> v])"
      using True by (simp add: setGraphVal_def graphHasField_def update_conv')
    then show ?thesis by blast
  next
    case False
    then have "\<forall>p. graphs p = G \<longrightarrow> setGraphVal g f v p = Inl (AttributeError g f)"
      by (simp add: setGraphVal_def graphHasField_def)
    then show ?thesis by blast
  qed
qed

lemma uniform_run_steps: "list_all uniform ss \<Longrightarrow> uniform (run_steps ss)"
proof (induction ss)
  case Nil
  have "run_steps [] = Inr" by (simp add: fun_eq_iff)
  then show ?case by (simp add: uniform_skip)
next
  case (Cons s ss)
  then have s: "uniform s" and ss: "uniform (run_steps ss)" by simp_all
  show ?case
    unfolding uniform_def
  proof
    fix G
    from s consider e where "\<forall>p. graphs p = G \<longrightarrow> s p = Inl e"
      | m where "\<forall>p. graphs p = G \<longrightarrow>
           (\<exists>p'. s p = Inr p' \<and> graphs p' = G \<and> map_of (vals p') = map_of (vals p) ++ m)"
      unfolding uniform_def by blast
    then show "(\<exists>e. \<forall>p. graphs p = G \<longrightarrow> run_steps (s # ss) p = Inl e)
     \<or> (\<exists>m. \<forall>p. graphs p = G \<longrightarrow>
           (\<exists>p'. run_steps (s # ss) p = Inr p' \<and> graphs p' = G
              \<and> map_of (vals p') = map_of (vals p) ++ m))"
    proof cases
      case 1
      then have "\<forall>p. graphs p = G \<longrightarrow> run_steps (s # ss) p = Inl e" by simp
      then show ?thesis by blast
    next
      case 2
      from ss consider e' where "\<forall>p. graphs p = G \<longrightarrow> run_steps ss p = Inl e'"
        | m' where "\<forall>p. graphs p = G \<longrightarrow>
           (\<exists>p'. run_steps ss p = Inr p' \<and> graphs p' = G
              \<and> map_of (vals p') = map_of (vals p) ++ m')"
        unfolding uniform_def by blast
      then show ?thesis
      proof cases
        case 1
        have "\<forall>p. graphs p = G \<longrightarrow> run_steps (s # ss) p = Inl e'"
        proof (intro allI impI)
          fix p :: plugin assume "graphs p = G"
          with 2 obtain q where "s p = Inr q" "graphs q = G" by blast
          with 1 show "run_steps (s # ss) p = Inl e'" by simp
        qed
        then show ?thesis by blast
      next
        case m': 2
        have "\<forall>p. graphs p = G \<longrightarrow>
           (\<exists>p'. run_steps (s # ss) p = Inr p' \<and> graphs p' = G
              \<and> map_of (vals p') = map_of (vals p) ++ (m ++ m'))"
        proof (intro allI impI)
          fix p :: plugin assume "graphs p = G"
          with 2 obtain q where q: "s p = Inr q" "graphs q = G"
            "map_of (vals q) = map_of (vals p) ++ m" by blast
          with m' obtain p' where "run_steps ss q = Inr p'" "graphs p' = G"
            "map_of (vals p') = map_of (vals q) ++ m'" by blast
          with q show "\<exists>p'. run_steps (s # ss) p = Inr p' \<and> graphs p' = G
              \<and> map_of (vals p') = map_of (vals p) ++ (m ++ m')"
            by simp
        qed
        then show ?thesis by blast
      qed
    qed
  qed
qed

lemma uniform_if:
  assumes "uniform s"
  shows "uniform (\<lambda>p. if c (graphs p) then s p else Inr p)"
  unfolding uniform_def
proof
  fix G
  show "(\<exists>e. \<forall>p. graphs p = G \<longrightarrow> (if c (graphs p) then s p else Inr p) = Inl e)
     \<or> (\<exists>m. \<forall>p. graphs p = G \<longrightarrow>
           (\<exists>p'. (if c (graphs p) then s p else Inr p) = Inr p' \<and> graphs p' = G
              \<and> map_of (vals p') = map_of (vals p) ++ m))"
  proof (cases "c G")
    case True
    with assms[unfolded uniform_def, rule_format, of G] show ?thesis by auto
  next
    case False
    with uniform_skip[unfolded uniform_def, rule_format, of G] show ?thesis by auto
  qed
qed

lemma uniform_ifGraph: "list_all uniform ss \<Longrightarrow> uniform (ifGraph g ss)"
proof -
  assume "list_all uniform ss"
  from uniform_if[OF uniform_run_steps[OF this], of "\<lambda>G. schema_has_graph G g"]
  have "uniform (\<lambda>p. if schema_has_graph (graphs p) g then run_steps ss p else Inr p)" .
  moreover have "ifGraph g ss = (\<lambda>p. if schema_has_graph (graphs p) g then run_steps ss p else Inr p)"
    by (simp add: fun_eq_iff ifGraph_def hasGraph_def)
  ultimately show ?thesis by simp
qed

lemma uniform_ifField: "list_all uniform ss \<Longrightarrow> uniform (ifField g f ss)"
proof -
  assume "list_all uniform ss"
  from uniform_if[OF uniform_run_steps[OF this], of "\<lambda>G. schema_has_field G g f"]
  have "uniform (\<lambda>p. if schema_has_field (graphs p) g f then run_steps ss p else Inr p)" .
  moreover have "ifField g f ss = (\<lambda>p. if schema_has_field (graphs p) g f then run_steps ss p else Inr p)"
    by (simp add: fun_eq_iff ifField_def graphHasField_def)
  ultimately show ?thesis by simp
qed

lemma err_bind_const:
  "(\<lambda>p. err_bind m (\<lambda>x. k x p)) = (case m of Inl e \<Rightarrow> (\<lambda>p. Inl e) | Inr x \<Rightarrow> k x)"
  by (cases m) auto

lemma hitpct_field_shape:
  "hitpct_field st prev x = Inr
   \<or> (\<exists>e. hitpct_field st prev x = (\<lambda>p. Inl e))
   \<or> (\<exists>v. hitpct_field st prev x = setGraphVal ''memcached_hitpct'' (fst x) v)"
proof -
  obtain fn fh fm where x: "x = (fn, fh, fm)" by (cases x) auto
  show ?thesis
  proof (cases "\<exists>prev'. prev = Some prev' \<and> truthy prev \<and> dict_has fh st \<and> dict_has fh prev'
                  \<and> dict_has fm st \<and> dict_has fm prev'")
    case False
    then have "hitpct_field st prev x = Inr"
      by (auto simp: x hitpct_field_def fun_eq_iff split: option.splits)
    then show ?thesis by simp
  next
    case True
    then obtain prev' where pv: "prev = Some prev'" "truthy prev" "dict_has fh st"
      "dict_has fh prev'" "dict_has fm st" "dict_has fm prev'" by blast
    then obtain ch ph cm pm where l: "dict_item st fh = Inr ch" "dict_item prev' fh = Inr ph"
      "dict_item st fm = Inr cm" "dict_item prev' fm = Inr pm"
      by (auto simp: dict_has_def dict_item_def split: option.splits)
    have eq: "hitpct_field st prev x = (\<lambda>p.
        err_bind (py_sub ch ph) (\<lambda>hits.
        err_bind (py_sub cm pm) (\<lambda>misses.
        err_bind (py_add hits misses) (\<lambda>tot.
        err_bind (hitpct_val hits tot) (\<lambda>val.
          setGraphVal ''memcached_hitpct'' fn val p)))))"
      using pv l by (simp add: x hitpct_field_def fun_eq_iff)
    show ?thesis
    proof (cases "py_sub ch ph")
      case (Inl e)
      with eq have "hitpct_field st prev x = (\<lambda>p. Inl e)" by simp
      then show ?thesis by blast
    next
      case hits: (Inr hits)
      show ?thesis
      proof (cases "py_sub cm pm")
        case (Inl e)
        with eq hits have "hitpct_field st prev x = (\<lambda>p. Inl e)" by simp
        then show ?thesis by blast
      next
        case misses: (Inr misses)
        show ?thesis
        proof (cases "py_add hits misses")
          case (Inl e)
          with eq hits misses have "hitpct_field st prev x = (\<lambda>p. Inl e)" by simp
          then show ?thesis by blast
        next
          case tot: (Inr tot)
          show ?thesis
          proof (cases "hitpct_val hits tot")
            case (Inl e)
            with eq hits misses tot have "hitpct_field st prev x = (\<lambda>p. Inl e)" by simp
            then show ?thesis by blast
          next
            case (Inr val)
            with eq hits misses tot have "hitpct_field st prev x =
              setGraphVal ''memcached_hitpct'' fn val"
              by (simp add: fun_eq_iff)
            then show ?thesis by (auto simp: x)
          qed
        qed
      qed
    qed
  qed
qed

lemma uniform_hitpct_field: "uniform (hitpct_field st prev x)"
  using hitpct_field_shape[of st prev x] uniform_skip uniform_fail uniform_setGraphVal
  by auto

lemma uniform_retrieve_steps: "list_all uniform (retrieve_steps st prev)"
  by (simp add: retrieve_steps_def uniform_ifGraph uniform_ifField uniform_setGraphVal
      uniform_hitpct_field list_all_iff)


lemma dict_set_triv: "map_of d k = Some v \<Longrightarrow> dict_set d k v = d"
  by (simp add: dict_set_def update_triv)

lemma set_hits_misses_idem:
  assumes "set_hits_misses st0 = Inr st"
  shows "set_hits_misses st = Inr st"
proof -
  note f = set_hits_misses_Inr[OF assms]
  have ti: "map_of st ''total_items'' = map_of st0 ''total_items''"
    and cs: "map_of st ''cmd_set'' = map_of st0 ''cmd_set''"
    by (simp_all add: f(2))
  have 1: "dict_set st ''set_hits'' (dict_get st ''total_items'') = st"
    by (rule dict_set_triv) (simp add: f(1) dict_get_def ti)
  show ?thesis
  proof (cases "dict_has ''cmd_set'' st0 \<and> dict_has ''total_items'' st0")
    case True
    with f(3) obtain d where
      d: "py_sub (dict_get st0 ''cmd_set'') (dict_get st0 ''total_items'') = Inr d"
      and sm: "map_of st ''set_misses'' = Some d" by blast
    from True have h: "dict_has ''cmd_set'' st" "dict_has ''total_items'' st"
      by (simp_all add: dict_has_def ti cs)
    then obtain a b where ab: "map_of st ''cmd_set'' = Some a" "map_of st ''total_items'' = Some b"
      by (auto simp: dict_has_def split: option.splits)
    with d have d': "py_sub a b = Inr d" by (simp add: dict_get_def ti[symmetric] cs[symmetric])
    show ?thesis
      using 1 h ab d' dict_set_triv[OF sm]
      by (simp add: set_hits_misses_def dict_item_def)
  next
    case False
    then have "\<not> (dict_has ''cmd_set'' st \<and> dict_has ''total_items'' st)"
      by (simp add: dict_has_def ti cs)
    with 1 show ?thesis by (auto simp: set_hits_misses_def)
  qed
qed

lemma map_add_twice: "(a ++ m) ++ m = a ++ m"
  by (rule ext) (simp add: map_add_def split: option.splits)

lemma retrieveVals_run:
  assumes "current_stats p fetched = Some st0" "set_hits_misses st0 = Inr st"
  shows "\<exists>q. graphs q = graphs p \<and> vals q = vals p
           \<and> retrieveVals p fetched = run_steps (retrieve_steps st (self_prev_stats p)) q"
proof -
  let ?p1 = "case self_stats p of
                  None \<Rightarrow> p\<lparr>event_log := event_log p @ [GetStats]\<rparr>
                | Some s \<Rightarrow> p"
  let ?q = "?p1\<lparr>self_stats := (case self_stats p of None \<Rightarrow> None | Some s \<Rightarrow> Some st),
                     state_store := Some st,
                     event_log := event_log ?p1 @ [SaveState]\<rparr>"
  have "graphs ?q = graphs p" "vals ?q = vals p" by (simp_all split: option.splits)
  moreover have "retrieveVals p fetched = run_steps (retrieve_steps st (self_prev_stats p)) ?q"
    using assms by (simp add: retrieveVals_def Let_def)
  ultimately show ?thesis by blast
qed







section \<open>The properties of the specification\<close>



text \<open>
  C2. A combined-sum field of a cycle (the \<^verbatim>\<open>del\<close>, \<^verbatim>\<open>cas\<close>, \<^verbatim>\<open>incr\<close> and \<^verbatim>\<open>decr\<close>
  fields of \<^verbatim>\<open>memcached_reqrate\<close> and the \<^verbatim>\<open>total\<close> fields of the five stat graphs):
  when every counter of its list is absent from the dictionary of the cycle the value is
  \<^verbatim>\<open>None\<close>; when at least one is present the value is a number, the sum of the counters
  of the list with 0 for an absent one. The sum itself is \<^verbatim>\<open>safe_sum\<close>, taken from the
  specification.
\<close>

theorem combined_sum:
  assumes "retrieveVals p fetched = Inr p'" and "current_stats p fetched = Some st0"
    and "set_hits_misses st0 = Inr st"
    and "(g, f, ks) \<in> set combined_fields" and "graphHasField p g f"
  shows "(list_all (\<lambda>k. dict_get st k = PyNone) ks \<longrightarrow> graphVal p' g f = PyNone)
    \<and> (\<not> list_all (\<lambda>k. dict_get st k = PyNone) ks \<longrightarrow>
         py_is_num (graphVal p' g f)
         \<and> num_val (graphVal p' g f) = sum_list (map (\<lambda>k. num_val (dict_get st k)) ks))"
proof -
  from assms(5) have "schema_has_field (graphs p) g f" by (simp add: graphHasField_def)
  from retrieveVals_sets[OF assms(1-3) sets_combined[OF assms(4) this]]
  have v: "graphVal p' g f = safe_sum (map (dict_get st) ks)" .
  have a: "list_all (\<lambda>v. v = PyNone) (map (dict_get st) ks)
             \<longleftrightarrow> list_all (\<lambda>k. dict_get st k = PyNone) ks"
    by (simp add: list_all_iff)
  have m: "map num_val (map (dict_get st) ks) = map (\<lambda>k. num_val (dict_get st k)) ks"
    by simp
  show ?thesis
    using safe_sum_all_absent[of "map (dict_get st) ks"]
      safe_sum_some_present[of "map (dict_get st) ks"] v a m
    by (simp add: comp_def)
qed


theorem combined_sum_witness:
  "\<exists>p p'. init_plugin UNIV
        (Some [(''cmd_set'', PyInt 1), (''cmd_get'', PyInt 1), (''incr_hits'', PyInt 2),
               (''set_hits'', PyNone)]) None = Inr p
     \<and> retrieveVals p
          (Some [(''cmd_set'', PyInt 4), (''cmd_get'', PyInt 6), (''incr_misses'', PyInt 5)]) = Inr p'
     \<and> graphHasField p ''memcached_reqrate'' ''incr''
     \<and> py_is_num (graphVal p' ''memcached_reqrate'' ''incr'')
     \<and> num_val (graphVal p' ''memcached_reqrate'' ''incr'') = 5
     \<and> graphHasField p ''memcached_statget'' ''total''
     \<and> graphVal p' ''memcached_statget'' ''total'' = PyNone"
proof -
  define cur where
    "cur = [(''cmd_set'', PyInt 4), (''cmd_get'', PyInt 6), (''incr_misses'', PyInt 5)]"
  define st where "st = cur @ [(''set_hits'', PyNone)]"
  obtain p where p: "init_plugin UNIV
        (Some [(''cmd_set'', PyInt 1), (''cmd_get'', PyInt 1), (''incr_hits'', PyInt 2),
               (''set_hits'', PyNone)]) None = Inr p"
    by (simp add: eval_defs)
  obtain p' where p': "retrieveVals p (Some cur) = Inr p'"
    using p by (auto simp: eval_defs cur_def)
  have c: "current_stats p (Some cur) = Some cur"
    using p by (auto simp: eval_defs)
  have e: "set_hits_misses cur = Inr st"
    by (simp add: eval_defs cur_def st_def)
  have f1: "graphHasField p ''memcached_reqrate'' ''incr''"
    and f2: "graphHasField p ''memcached_statget'' ''total''"
    using p by (auto simp: eval_defs)
  have m1: "(''memcached_reqrate'', ''incr'', [''incr_hits'', ''incr_misses'']) \<in> set combined_fields"
    and m2: "(''memcached_statget'', ''total'', [''get_hits'', ''get_misses'']) \<in> set combined_fields"
    by (simp_all add: combined_fields_def)
  have "py_is_num (graphVal p' ''memcached_reqrate'' ''incr'')
     \<and> num_val (graphVal p' ''memcached_reqrate'' ''incr'') = 5"
    using combined_sum[OF p' c e m1 f1] by (simp add: st_def cur_def dict_get_def)
  moreover have "graphVal p' ''memcached_statget'' ''total'' = PyNone"
    using combined_sum[OF p' c e m2 f2] by (simp add: st_def cur_def dict_get_def)
  ultimately show ?thesis using p p' f1 f2 unfolding cur_def by blast
qed





text \<open>
  C5. The schema the constructor builds from a dictionary \<open>b\<close> and a set \<open>en\<close> of enabled
  names: a graph of the catalog is there exactly when its name is enabled and each counter
  it requires is in \<open>b\<close>, and no other graph is; in a graph that is there, a conditional
  field is there exactly when its counter is in \<open>b\<close>. In the graph \<^verbatim>\<open>memcached_hitpct\<close>
  the fields \<^verbatim>\<open>del\<close>, \<^verbatim>\<open>cas\<close>, \<^verbatim>\<open>incr\<close> and \<^verbatim>\<open>decr\<close> are gated on their hit
  counters; the fields \<^verbatim>\<open>set\<close> and \<^verbatim>\<open>get\<close> are always there.
\<close>

theorem schema_inclusion:
  "(\<forall>(g, req) \<in> set catalog.
      schema_has_graph (init_graphs en b) g \<longleftrightarrow> (g \<in> en \<and> list_all (\<lambda>k. dict_has k b) req))
   \<and> (\<forall>g. schema_has_graph (init_graphs en b) g \<longrightarrow> g \<in> set (map fst catalog))
   \<and> (\<forall>(g, f, k) \<in> set conditional_fields.
        schema_has_graph (init_graphs en b) g \<longrightarrow>
          (schema_has_field (init_graphs en b) g f \<longleftrightarrow> dict_has k b))
   \<and> (schema_has_graph (init_graphs en b) ''memcached_hitpct'' \<longrightarrow>
        schema_has_field (init_graphs en b) ''memcached_hitpct'' ''set''
        \<and> schema_has_field (init_graphs en b) ''memcached_hitpct'' ''get'')"
  using schema_graphs[of en b] schema_graphs_only[of en b] schema_conditional_fields[of en b]
    schema_hitpct_set_get[of en b]
  by blast

theorem schema_inclusion_witness:
  "schema_has_graph
     (init_graphs UNIV [(''cmd_set'', PyInt 1), (''cmd_get'', PyInt 1), (''delete_hits'', PyInt 0)])
     ''memcached_hitpct''
   \<and> \<not> schema_has_graph
     (init_graphs UNIV [(''cmd_set'', PyInt 1), (''cmd_get'', PyInt 1), (''delete_hits'', PyInt 0)])
     ''memcached_connections''
   \<and> \<not> schema_has_graph
     (init_graphs {''memcached_items''}
        [(''cmd_set'', PyInt 1), (''cmd_get'', PyInt 1), (''delete_hits'', PyInt 0)])
     ''memcached_hitpct''
   \<and> schema_has_field
     (init_graphs UNIV [(''cmd_set'', PyInt 1), (''cmd_get'', PyInt 1), (''delete_hits'', PyInt 0)])
     ''memcached_hitpct'' ''del''
   \<and> \<not> schema_has_field
     (init_graphs UNIV [(''cmd_set'', PyInt 1), (''cmd_get'', PyInt 1), (''delete_hits'', PyInt 0)])
     ''memcached_hitpct'' ''cas''"
  using
    schema_inclusion[of UNIV "[(''cmd_set'', PyInt 1), (''cmd_get'', PyInt 1), (''delete_hits'', PyInt 0)]"]
    schema_inclusion[of "{''memcached_items''}"
      "[(''cmd_set'', PyInt 1), (''cmd_get'', PyInt 1), (''delete_hits'', PyInt 0)]"]
  by (simp add: catalog_def conditional_fields_def dict_has_def)

text \<open>
  C5, as the specification has it (each field of \<^verbatim>\<open>memcached_hitpct\<close> is gated on its
  matching hit counter), fails for \<^verbatim>\<open>get\<close> and \<^verbatim>\<open>set\<close>: both fields are there
  although the dictionary has neither \<^verbatim>\<open>get_hits\<close> nor \<^verbatim>\<open>set_hits\<close>.
\<close>

theorem hitpct_gating_counterexample:
  "schema_has_field (init_graphs UNIV [(''cmd_set'', PyInt 1), (''cmd_get'', PyInt 1)])
     ''memcached_hitpct'' ''get''
   \<and> \<not> dict_has ''get_hits'' [(''cmd_set'', PyInt 1), (''cmd_get'', PyInt 1)]
   \<and> schema_has_field (init_graphs UNIV [(''cmd_set'', PyInt 1), (''cmd_get'', PyInt 1)])
     ''memcached_hitpct'' ''set''
   \<and> \<not> dict_has ''set_hits'' [(''cmd_set'', PyInt 1), (''cmd_get'', PyInt 1)]"
  by (simp add: eval_defs)

text \<open>
  C6. The graphs and their fields are decided by the constructor, from the dictionary it
  builds on, and \<^verbatim>\<open>retrieveVals\<close> leaves them as they are: whatever the counters of a
  later dictionary, no graph is added, and no value is recorded for a field that the
  schema does not have.
\<close>

theorem schema_frozen:
  assumes "init_plugin en stored fetched0 = Inr p" and "retrieveVals p fetched = Inr p'"
  shows "graphs p' = graphs p
    \<and> (\<exists>b. (case stored of None \<Rightarrow> fetched0 | Some prev \<Rightarrow> Some prev) = Some b
           \<and> graphs p' = init_graphs en b)
    \<and> (\<forall>g f. \<not> graphHasField p g f \<longrightarrow> graphVal p' g f = PyNone)"
proof -
  from assms(1) obtain b where
    b: "(case stored of None \<Rightarrow> fetched0 | Some prev \<Rightarrow> Some prev) = Some b"
    and g: "graphs p = init_graphs en b" and v: "vals p = []"
    by (rule init_plugin_Inr)
  have 1: "graphs p' = graphs p" by (rule retrieveVals_frame(1)[OF assms(2)])
  have "graphVal p' g f = PyNone" if "\<not> graphHasField p g f" for g f
  proof -
    have "map_of (vals p') (g, f) = None"
    proof (rule ccontr)
      assume "map_of (vals p') (g, f) \<noteq> None"
      from retrieveVals_frame(5)[OF assms(2) this] v that show False by simp
    qed
    then show ?thesis by (simp add: graphVal_def)
  qed
  with 1 b g show ?thesis by auto
qed

theorem schema_frozen_witness:
  "\<exists>p p'. init_plugin UNIV (Some [(''cmd_get'', PyInt 5), (''set_hits'', PyNone)]) None = Inr p
     \<and> retrieveVals p (Some [(''cmd_get'', PyInt 7), (''cmd_set'', PyInt 3)]) = Inr p'
     \<and> graphs p' = graphs p
     \<and> map fst (graphs p') = [''memcached_statget'']
     \<and> graphVal p' ''memcached_reqrate'' ''set'' = PyNone
     \<and> graphVal p' ''memcached_hitpct'' ''set'' = PyNone"
proof -
  obtain p where p: "init_plugin UNIV (Some [(''cmd_get'', PyInt 5), (''set_hits'', PyNone)]) None = Inr p"
    by (simp add: eval_defs)
  obtain p' where p': "retrieveVals p (Some [(''cmd_get'', PyInt 7), (''cmd_set'', PyInt 3)]) = Inr p'"
    using p by (auto simp: eval_defs)
  have g: "map fst (graphs p) = [''memcached_statget'']"
    "\<not> graphHasField p ''memcached_reqrate'' ''set''"
    "\<not> graphHasField p ''memcached_hitpct'' ''set''"
    using p by (auto simp: eval_defs)
  from schema_frozen[OF p p'] g p p' show ?thesis by auto
qed

text \<open>
  C7. In a run of the plugin the saved state is read first, by the constructor, and the
  new state is saved once, by \<^verbatim>\<open>retrieveVals\<close>, right after \<^verbatim>\<open>set_hits\<close> and
  \<^verbatim>\<open>set_misses\<close> are written: after the read, and before every field value is set.
\<close>

theorem handoff_precedes_values:
  assumes "run_plugin en stored fetched = Inr p'"
  shows "\<exists>sets. event_log p' = [RestoreState, GetStats, SaveState] @ sets
           \<and> list_all is_SetVal sets"
proof -
  from assms obtain p where i: "init_plugin en stored fetched = Inr p"
    and r: "retrieveVals p fetched = Inr p'"
    by (auto simp: run_plugin_def err_bind_Inr)
  from i obtain b where
    b: "(case stored of None \<Rightarrow> fetched | Some prev \<Rightarrow> Some prev) = Some b"
    and s: "self_stats p = (case stored of None \<Rightarrow> fetched | Some prev \<Rightarrow> None)"
    and l: "event_log p = RestoreState # (case stored of None \<Rightarrow> [GetStats] | Some prev \<Rightarrow> [])"
    by (rule init_plugin_Inr)
  from retrieveVals_frame(4)[OF r] obtain sets where
    e: "event_log p' = event_log p
           @ (case self_stats p of None \<Rightarrow> [GetStats] | Some s \<Rightarrow> []) @ [SaveState] @ sets"
    and a: "list_all is_SetVal sets" by blast
  have "event_log p' = [RestoreState, GetStats, SaveState] @ sets"
    using e l s b by (cases stored) auto
  with a show ?thesis by blast
qed

theorem handoff_precedes_values_witness:
  "\<exists>p'. run_plugin UNIV None (Some [(''cmd_set'', PyInt 100), (''total_items'', PyInt 90)]) = Inr p'
     \<and> (\<exists>sets. event_log p' = [RestoreState, GetStats, SaveState] @ sets
           \<and> list_all is_SetVal sets)"
proof -
  obtain p' where p': "run_plugin UNIV None (Some [(''cmd_set'', PyInt 100), (''total_items'', PyInt 90)]) = Inr p'"
    by (simp add: eval_defs)
  from handoff_precedes_values[OF p'] p' show ?thesis by blast
qed

text \<open>
  C7, as the specification has it (the state is handed over at the end of the cycle,
  after the field values), fails: here the three values of the graph
  \<^verbatim>\<open>memcached_statset\<close> are set after the state is saved.
\<close>

theorem handoff_at_end_counterexample:
  "result_log (run_plugin UNIV None (Some [(''cmd_set'', PyInt 100), (''total_items'', PyInt 90)]))
     = Inr [RestoreState, GetStats, SaveState,
            SetVal ''memcached_statset'' ''hit'',
            SetVal ''memcached_statset'' ''miss'',
            SetVal ''memcached_statset'' ''total'']"
  by (simp add: eval_defs result_log_def)

text \<open>
  C8. The dictionary that is saved is the dictionary worked on, after lines 314 to 316:
  \<^verbatim>\<open>set_hits\<close> holds what \<^verbatim>\<open>total_items\<close> holds (\<^verbatim>\<open>None\<close> when it is missing),
  \<^verbatim>\<open>set_misses\<close> holds \<^verbatim>\<open>cmd_set - total_items\<close> when both are there and is untouched
  otherwise, and every other key is as the server reported it.
\<close>

theorem saved_snapshot:
  assumes "retrieveVals p fetched = Inr p'" and "current_stats p fetched = Some st0"
  shows "\<exists>st. state_store p' = Some st
    \<and> map_of st ''set_hits'' = Some (dict_get st0 ''total_items'')
    \<and> (if dict_has ''cmd_set'' st0 \<and> dict_has ''total_items'' st0
        then \<exists>d. py_sub (dict_get st0 ''cmd_set'') (dict_get st0 ''total_items'') = Inr d
               \<and> map_of st ''set_misses'' = Some d
        else map_of st ''set_misses'' = map_of st0 ''set_misses'')
    \<and> (\<forall>k. k \<noteq> ''set_hits'' \<longrightarrow> k \<noteq> ''set_misses'' \<longrightarrow> map_of st k = map_of st0 k)"
proof -
  from retrieveVals_frame(3)[OF assms(1)] assms(2) obtain st where
    e: "set_hits_misses st0 = Inr st" and s: "state_store p' = Some st" by auto
  show ?thesis
    using s set_hits_misses_Inr[OF e] by auto
qed

theorem saved_snapshot_witness:
  "\<exists>p p'. init_plugin UNIV None (Some [(''cmd_set'', PyInt 100), (''total_items'', PyInt 90)]) = Inr p
     \<and> retrieveVals p None = Inr p'
     \<and> current_stats p None = Some [(''cmd_set'', PyInt 100), (''total_items'', PyInt 90)]
     \<and> (\<exists>st. state_store p' = Some st
          \<and> map_of st ''set_hits'' = Some (PyInt 90)
          \<and> map_of st ''set_misses'' = Some (PyInt 10)
          \<and> map_of st ''cmd_set'' = Some (PyInt 100)
          \<and> map_of st ''total_items'' = Some (PyInt 90))"
proof -
  obtain p where p: "init_plugin UNIV None (Some [(''cmd_set'', PyInt 100), (''total_items'', PyInt 90)]) = Inr p"
    by (simp add: eval_defs)
  obtain p' where p': "retrieveVals p None = Inr p'"
    using p by (auto simp: eval_defs)
  have c: "current_stats p None = Some [(''cmd_set'', PyInt 100), (''total_items'', PyInt 90)]"
    using p by (auto simp: eval_defs)
  from saved_snapshot[OF p' c] obtain st where st: "state_store p' = Some st"
    "map_of st ''set_hits'' = Some (dict_get [(''cmd_set'', PyInt 100), (''total_items'', PyInt 90)] ''total_items'')"
    "(if dict_has ''cmd_set'' [(''cmd_set'', PyInt 100), (''total_items'', PyInt 90)]
         \<and> dict_has ''total_items'' [(''cmd_set'', PyInt 100), (''total_items'', PyInt 90)]
        then \<exists>d. py_sub (dict_get [(''cmd_set'', PyInt 100), (''total_items'', PyInt 90)] ''cmd_set'')
                 (dict_get [(''cmd_set'', PyInt 100), (''total_items'', PyInt 90)] ''total_items'') = Inr d
               \<and> map_of st ''set_misses'' = Some d
        else map_of st ''set_misses'' = map_of [(''cmd_set'', PyInt 100), (''total_items'', PyInt 90)] ''set_misses'')"
    "\<forall>k. k \<noteq> ''set_hits'' \<longrightarrow> k \<noteq> ''set_misses''
        \<longrightarrow> map_of st k = map_of [(''cmd_set'', PyInt 100), (''total_items'', PyInt 90)] k"
    by blast
  have "map_of st ''set_hits'' = Some (PyInt 90)" using st(2) by (simp add: dict_get_def)
  moreover have "map_of st ''set_misses'' = Some (PyInt 10)"
    using st(3) by (simp add: dict_get_def dict_has_def)
  moreover have "map_of st ''cmd_set'' = Some (PyInt 100)" "map_of st ''total_items'' = Some (PyInt 90)"
    using st(4) by simp_all
  ultimately show ?thesis using p p' c st(1) by blast
qed

text \<open>
  C8, as the specification has it (the saved mapping is exactly the mapping obtained from
  the server), fails: the saved dictionary has the two keys \<^verbatim>\<open>set_hits\<close> and
  \<^verbatim>\<open>set_misses\<close>, which the server did not report.
\<close>

theorem saved_snapshot_unchanged_counterexample:
  "result_store (run_plugin UNIV None (Some [(''cmd_set'', PyInt 100), (''total_items'', PyInt 90)]))
     = Inr (Some [(''cmd_set'', PyInt 100), (''total_items'', PyInt 90),
                  (''set_hits'', PyInt 90), (''set_misses'', PyInt 10)])
   \<and> \<not> dict_has ''set_hits'' [(''cmd_set'', PyInt 100), (''total_items'', PyInt 90)]
   \<and> \<not> dict_has ''set_misses'' [(''cmd_set'', PyInt 100), (''total_items'', PyInt 90)]"
  by (simp add: eval_defs result_store_def)

text \<open>
  C9. A cycle is meant to leave out a field whose counter is missing and to go on. It
  does not when the server reports \<^verbatim>\<open>set_misses\<close> and no \<^verbatim>\<open>total_items\<close>: line 314
  stores \<^verbatim>\<open>None\<close> under \<^verbatim>\<open>set_hits\<close>, in the saved state too, and on the next run the
  four \<^verbatim>\<open>in\<close> tests of the \<^verbatim>\<open>set\<close> percentage pass, so that line 432 subtracts
  \<^verbatim>\<open>None\<close> from \<^verbatim>\<open>None\<close>. The first run below saves that state; the second raises.
\<close>

theorem missing_total_items_raises:
  "result_store (run_plugin UNIV None
      (Some [(''cmd_set'', PyInt 1), (''cmd_get'', PyInt 1), (''set_misses'', PyInt 3)]))
     = Inr (Some [(''cmd_set'', PyInt 1), (''cmd_get'', PyInt 1), (''set_misses'', PyInt 3),
                  (''set_hits'', PyNone)])
   \<and> run_plugin UNIV
       (Some [(''cmd_set'', PyInt 1), (''cmd_get'', PyInt 1), (''set_misses'', PyInt 3),
              (''set_hits'', PyNone)])
       (Some [(''cmd_set'', PyInt 2), (''cmd_get'', PyInt 2), (''set_misses'', PyInt 5)])
     = Inl TypeError"
  by (simp add: eval_defs result_store_def)

text \<open>
  C10. A cycle that has run can be run again on the same plugin with the same
  dictionaries: it returns again, every field has the value it had after the first run,
  and the schema and the saved state are the same. This covers the dictionary kept in
  \<^verbatim>\<open>self._stats\<close>, which the first run changed in place.
\<close>

theorem compute_idempotent:
  assumes "retrieveVals p fetched = Inr p'"
  shows "\<exists>p''. retrieveVals p' fetched = Inr p''
    \<and> (\<forall>g f. graphVal p'' g f = graphVal p' g f)
    \<and> graphs p'' = graphs p' \<and> state_store p'' = state_store p'"
proof -
  from assms obtain st0 st p1 where
    c: "current_stats p fetched = Some st0" and e: "set_hits_misses st0 = Inr st" and
    r: "run_steps (retrieve_steps st (self_prev_stats p)) p1 = Inr p'" and
    p1: "graphs p1 = graphs p" "vals p1 = vals p"
      "self_stats p1 = (case self_stats p of None \<Rightarrow> None | Some s \<Rightarrow> Some st)"
      "state_store p1 = Some st"
    by (rule retrieveVals_Inr)
  have fr: "frame (run_steps (retrieve_steps st (self_prev_stats p)))"
    by (rule frame_run_steps[OF frame_retrieve_steps])
  with r have f: "graphs p' = graphs p1" "self_stats p' = self_stats p1"
    "self_prev_stats p' = self_prev_stats p1" "state_store p' = state_store p1"
    unfolding frame_def by blast+
  have pv: "self_prev_stats p' = self_prev_stats p"
    by (rule retrieveVals_frame(2)[OF assms])
  have "\<exists>st0'. current_stats p' fetched = Some st0' \<and> set_hits_misses st0' = Inr st"
  proof (cases "self_stats p")
    case None
    with f(2) p1(3) c e show ?thesis by (simp add: current_stats_def)
  next
    case (Some s)
    with f(2) p1(3) set_hits_misses_idem[OF e] show ?thesis by (simp add: current_stats_def)
  qed
  then obtain st0' where c': "current_stats p' fetched = Some st0'"
    and e': "set_hits_misses st0' = Inr st" by blast
  from retrieveVals_run[OF c' e'] pv obtain q where
    q: "graphs q = graphs p'" "vals q = vals p'"
    "retrieveVals p' fetched = run_steps (retrieve_steps st (self_prev_stats p)) q"
    by auto
  have "uniform (run_steps (retrieve_steps st (self_prev_stats p)))"
    by (rule uniform_run_steps[OF uniform_retrieve_steps])
  then consider err where
      "\<forall>x. graphs x = graphs p \<longrightarrow> run_steps (retrieve_steps st (self_prev_stats p)) x = Inl err"
    | m where "\<forall>x. graphs x = graphs p \<longrightarrow>
        (\<exists>x'. run_steps (retrieve_steps st (self_prev_stats p)) x = Inr x'
           \<and> graphs x' = graphs p \<and> map_of (vals x') = map_of (vals x) ++ m)"
    unfolding uniform_def by blast
  then show ?thesis
  proof cases
    case 1
    with r p1(1) show ?thesis by simp
  next
    case 2
    from 2 p1(1) r have v1: "map_of (vals p') = map_of (vals p1) ++ m" by fastforce
    from q(1) f(1) p1(1) have "graphs q = graphs p" by simp
    with 2 obtain p'' where
      r2: "run_steps (retrieve_steps st (self_prev_stats p)) q = Inr p''"
      and g2: "graphs p'' = graphs p" and v2: "map_of (vals p'') = map_of (vals q) ++ m"
      by blast
    from v1 v2 q(2) have "map_of (vals p'') = map_of (vals p')" by (simp add: map_add_twice)
    then have same: "\<forall>g f. graphVal p'' g f = graphVal p' g f" by (simp add: graphVal_def)
    from r2 q(3) have run2: "retrieveVals p' fetched = Inr p''" by simp
    from retrieveVals_frame(3)[OF run2] c' e' have "state_store p'' = Some st" by auto
    with f(4) p1(4) have "state_store p'' = state_store p'" by simp
    with run2 same g2 f(1) p1(1) show ?thesis by simp
  qed
qed

theorem compute_idempotent_witness:
  "\<exists>p p'. init_plugin UNIV None (Some [(''cmd_set'', PyInt 100), (''total_items'', PyInt 90)]) = Inr p
     \<and> retrieveVals p None = Inr p'
     \<and> (\<exists>p''. retrieveVals p' None = Inr p''
          \<and> (\<forall>g f. graphVal p'' g f = graphVal p' g f)
          \<and> graphs p'' = graphs p' \<and> state_store p'' = state_store p')"
proof -
  obtain p where p: "init_plugin UNIV None (Some [(''cmd_set'', PyInt 100), (''total_items'', PyInt 90)]) = Inr p"
    by (simp add: eval_defs)
  obtain p' where p': "retrieveVals p None = Inr p'"
    using p by (auto simp: eval_defs)
  from compute_idempotent[OF p'] p p' show ?thesis by blast
qed

end
